theory Spec2Isabelle
  imports Main "HOL-Library.AList"
begin

section \<open>The two-tier healthcare cache (HealthcareCacheManager.ts)\<close>

text \<open>
  A shallow embedding of the class \<^verbatim>\<open>HealthcareCacheManager\<close>. The in-memory
  \<^verbatim>\<open>Map\<close> is an association list in insertion order, \<^verbatim>\<open>AsyncStorage\<close> is an
  association list of stored texts with switches that make its operations reject, and
  every \<^verbatim>\<open>async\<close> method returns a pair: how the promise settled (\<open>Inl\<close> an
  error when it rejects, \<open>Inr\<close> the value when it resolves) and the state it leaves.
  \<^verbatim>\<open>Date.now()\<close> is an argument of the methods that read the clock; a call is
  taken to be instantaneous, so it reads one clock value. Console output is left out.
\<close>

subsection \<open>JavaScript values\<close>

text \<open>
  The numbers of the code are millisecond counts: integers, and \<open>NaN\<close> where the
  arithmetic meets \<^verbatim>\<open>undefined\<close>. \<open>Null\<close> is what \<^verbatim>\<open>JSON.stringify\<close>
  writes for \<open>NaN\<close>, so a field read back from storage can hold it.
\<close>

datatype jsnum = Num int | NaN | Null

text \<open>\<^verbatim>\<open>now + config.maxAge\<close>, where \<^verbatim>\<open>maxAge\<close> may be \<^verbatim>\<open>undefined\<close>.\<close>

fun js_add :: "int \<Rightarrow> int option \<Rightarrow> jsnum" where
  "js_add n (Some w) = Num (n + w)"
| "js_add n None = NaN"

text \<open>\<^verbatim>\<open>n > x\<close>: false against \<open>NaN\<close>; \<^verbatim>\<open>null\<close> converts to 0.\<close>

fun js_gt :: "int \<Rightarrow> jsnum \<Rightarrow> bool" where
  "js_gt n (Num x) = (n > x)"
| "js_gt n NaN = False"
| "js_gt n Null = (n > 0)"

text \<open>\<^verbatim>\<open>a - b\<close> on numbers.\<close>

fun js_sub :: "jsnum \<Rightarrow> jsnum \<Rightarrow> jsnum" where
  "js_sub NaN b = NaN"
| "js_sub a NaN = NaN"
| "js_sub (Num a) (Num b) = Num (a - b)"
| "js_sub (Num a) Null = Num a"
| "js_sub Null (Num b) = Num (- b)"
| "js_sub Null Null = Num 0"

text \<open>
  \<^verbatim>\<open>Array.prototype.sort\<close> with a comparator: a comparator result that is \<open>NaN\<close>
  is read as \<open>+0\<close>. The sort is stable; it is modelled as the stable insertion sort.
  When the comparator is a consistent order (every score is a number) this is the
  result of every conforming engine. When it is not (a score is \<open>NaN\<close>), the standard
  leaves the order to the engine and the model's order need not be the engine's, with
  one exception that the model shares with the engines: an array in which every entry
  is \<open>not_after\<close> its successor is left as it is (lemma \<open>js_sort_run\<close> below). A
  run-detecting sort finds there a single ascending run; and when every comparison in
  the array is \<open>0\<close> or \<open>NaN\<close>, the engine sees what it would see under the constant
  comparator \<open>0\<close>, for which stability fixes the result. The concrete inputs below on
  which a score is \<open>NaN\<close> are of this kind.
\<close>

fun not_after :: "jsnum \<Rightarrow> bool" where
  "not_after (Num v) = (v \<le> 0)"
| "not_after NaN = True"
| "not_after Null = True"

fun insort_by :: "('e \<Rightarrow> 'e \<Rightarrow> jsnum) \<Rightarrow> 'e \<Rightarrow> 'e list \<Rightarrow> 'e list" where
  "insort_by cmp x [] = [x]"
| "insort_by cmp x (y # ys) =
     (if not_after (cmp x y) then x # y # ys else y # insort_by cmp x ys)"

definition js_sort :: "('e \<Rightarrow> 'e \<Rightarrow> jsnum) \<Rightarrow> 'e list \<Rightarrow> 'e list" where
  "js_sort cmp xs = foldr (insort_by cmp) xs []"

text \<open>\<^verbatim>\<open>key.startsWith(prefix)\<close>.\<close>

definition startsWith :: "string \<Rightarrow> string \<Rightarrow> bool" where
  "startsWith key pre = (take (length pre) key = pre)"

subsection \<open>Entries and policies\<close>

datatype priority = PLow | PNormal | PHigh

datatype ctype = TNonCritical | TNormal | TCritical

text \<open>
  \<^verbatim>\<open>CacheEntry<T>\<close>. The interface declares \<^verbatim>\<open>priority\<close> and \<^verbatim>\<open>type\<close> as one
  of three strings and \<^verbatim>\<open>expiresAt\<close> as a number, but \<^verbatim>\<open>set\<close> can build an
  entry from an empty configuration: \<open>None\<close> is \<^verbatim>\<open>undefined\<close>. The payload type
  \<open>'a\<close> stands for what the property \<^verbatim>\<open>data\<close> can read as; a payload given to
  \<^verbatim>\<open>set\<close> is taken to be one that \<^verbatim>\<open>JSON\<close> writes and reads back unchanged. The
  field \<^verbatim>\<open>timestamp\<close> is never read.
\<close>

record 'a cache_entry =
  data :: 'a
  timestamp :: int
  expiresAt :: jsnum
  priority :: "priority option"
  type :: "ctype option"

text \<open>
  A configuration as the code reads it: each of \<^verbatim>\<open>config.maxAge\<close>,
  \<^verbatim>\<open>config.priority\<close> and \<^verbatim>\<open>config.type\<close> is a value or \<^verbatim>\<open>undefined\<close>
  (\<open>None\<close>). A \<^verbatim>\<open>CacheConfig\<close> of the registry has all three.
\<close>

record cache_config =
  maxAge :: "int option"
  cfg_priority :: "priority option"
  cfg_type :: "ctype option"

definition CacheConfig :: "int \<Rightarrow> priority \<Rightarrow> ctype \<Rightarrow> cache_config" where
  "CacheConfig w p t = \<lparr>maxAge = Some w, cfg_priority = Some p, cfg_type = Some t\<rparr>"

definition no_config :: cache_config where
  "no_config = \<lparr>maxAge = None, cfg_priority = None, cfg_type = None\<rparr>"

text \<open>
  The override, a \<^verbatim>\<open>Partial<CacheConfig>\<close>: each property is absent, present with
  the value \<^verbatim>\<open>undefined\<close>, or present with a value.
\<close>

datatype 'a property = Absent | Undefined | Value 'a

record custom_config =
  custom_maxAge :: "int property"
  custom_priority :: "priority property"
  custom_type :: "ctype property"

definition Override :: "int \<Rightarrow> priority \<Rightarrow> ctype \<Rightarrow> custom_config" where
  "Override w p t = \<lparr>custom_maxAge = Value w, custom_priority = Value p, custom_type = Value t\<rparr>"

definition no_custom :: custom_config where
  "no_custom = \<lparr>custom_maxAge = Absent, custom_priority = Absent, custom_type = Absent\<rparr>"

text \<open>
  The object spread \<^verbatim>\<open>{ ...a, ...b }\<close>, property by property: a property that \<open>b\<close>
  has wins, also when its value is \<^verbatim>\<open>undefined\<close>.
\<close>

fun over :: "'a property \<Rightarrow> 'a option \<Rightarrow> 'a option" where
  "over Absent a = a"
| "over Undefined a = None"
| "over (Value v) a = Some v"

definition spread :: "cache_config \<Rightarrow> custom_config \<Rightarrow> cache_config" where
  "spread a b =
     \<lparr>maxAge = over (custom_maxAge b) (maxAge a),
      cfg_priority = over (custom_priority b) (cfg_priority a),
      cfg_type = over (custom_type b) (cfg_type a)\<rparr>"

text \<open>Spreading \<^verbatim>\<open>undefined\<close> (no registry entry, no override) adds no property.\<close>

fun or_empty :: "cache_config option \<Rightarrow> cache_config" where
  "or_empty (Some c) = c"
| "or_empty None = no_config"

fun or_absent :: "custom_config option \<Rightarrow> custom_config" where
  "or_absent (Some c) = c"
| "or_absent None = no_custom"

definition maxMemoryCacheSize :: nat where
  "maxMemoryCacheSize = 50"

definition storagePrefix :: string where
  "storagePrefix = ''gynaid_cache_''"

definition cacheConfigs :: "string \<Rightarrow> cache_config option" where
  "cacheConfigs = map_of
     [(''userProfile'', CacheConfig (24 * 60 * 60 * 1000) PHigh TCritical),
      (''medicalHistory'', CacheConfig (12 * 60 * 60 * 1000) PHigh TCritical),
      (''emergencyContacts'', CacheConfig (6 * 60 * 60 * 1000) PHigh TCritical),
      (''appointments'', CacheConfig (2 * 60 * 60 * 1000) PNormal TNormal),
      (''providers'', CacheConfig (4 * 60 * 60 * 1000) PNormal TNormal),
      (''healthTips'', CacheConfig (6 * 60 * 60 * 1000) PNormal TNormal),
      (''notifications'', CacheConfig (30 * 60 * 1000) PLow TNonCritical),
      (''chatHistory'', CacheConfig (2 * 60 * 60 * 1000) PLow TNonCritical),
      (''uiPreferences'', CacheConfig (60 * 60 * 1000) PLow TNonCritical)]"

subsection \<open>AsyncStorage\<close>

text \<open>
  A stored text, by what reading it gives: a text that \<^verbatim>\<open>JSON.parse\<close> rejects
  (\<open>Unparsable\<close>, with the text; the empty text is one), a text that parses to a falsy
  value such as \<^verbatim>\<open>null\<close>, \<^verbatim>\<open>0\<close> or \<^verbatim>\<open>false\<close> (\<open>Falsy\<close>), or a text that
  parses to a truthy value (\<open>Json\<close>), given by what the property reads of the code
  yield on it. The serialisation of an entry is of the last kind; so is \<^verbatim>\<open>{}\<close> or
  \<^verbatim>\<open>5\<close>, on which every property reads \<^verbatim>\<open>undefined\<close>. In a \<open>Json\<close> text an
  \<^verbatim>\<open>expiresAt\<close> of \<open>NaN\<close> stands for a missing property: \<^verbatim>\<open>undefined\<close> compares
  as \<open>NaN\<close> does. Each operation rejects, and changes nothing, when its switch is on.
\<close>

datatype error = StorageError | SyntaxError

datatype 'a stored = Unparsable string | Falsy | Json "'a cache_entry"

record 'a async_storage =
  items :: "(string \<times> 'a stored) list"
  failGetItem :: bool
  failSetItem :: bool
  failRemoveItem :: bool
  failGetAllKeys :: bool
  failMultiRemove :: bool

type_synonym ('r, 's) settled = "(error + 'r) \<times> 's"

definition getItem :: "string \<Rightarrow> 'a async_storage \<Rightarrow> ('a stored option, 'a async_storage) settled" where
  "getItem k st = (if failGetItem st then (Inl StorageError, st) else (Inr (map_of (items st) k), st))"

definition setItem :: "string \<Rightarrow> 'a stored \<Rightarrow> 'a async_storage \<Rightarrow> (unit, 'a async_storage) settled" where
  "setItem k v st =
     (if failSetItem st then (Inl StorageError, st)
      else (Inr (), st\<lparr>items := AList.update k v (items st)\<rparr>))"

definition removeItem :: "string \<Rightarrow> 'a async_storage \<Rightarrow> (unit, 'a async_storage) settled" where
  "removeItem k st =
     (if failRemoveItem st then (Inl StorageError, st)
      else (Inr (), st\<lparr>items := AList.delete k (items st)\<rparr>))"

definition getAllKeys :: "'a async_storage \<Rightarrow> (string list, 'a async_storage) settled" where
  "getAllKeys st = (if failGetAllKeys st then (Inl StorageError, st) else (Inr (map fst (items st)), st))"

definition multiRemove :: "string list \<Rightarrow> 'a async_storage \<Rightarrow> (unit, 'a async_storage) settled" where
  "multiRemove ks st =
     (if failMultiRemove st then (Inl StorageError, st)
      else (Inr (), st\<lparr>items := fold AList.delete ks (items st)\<rparr>))"

text \<open>\<^verbatim>\<open>JSON.stringify(entry)\<close>: \<open>NaN\<close> is written as \<^verbatim>\<open>null\<close>.\<close>

definition JSON_stringify :: "'a cache_entry \<Rightarrow> 'a stored" where
  "JSON_stringify e = Json (e\<lparr>expiresAt := (case expiresAt e of NaN \<Rightarrow> Null | x \<Rightarrow> x)\<rparr>)"

text \<open>
  \<^verbatim>\<open>stored ? JSON.parse(stored) : null\<close> on a text that was found: the empty text
  is falsy and is not parsed; a falsy result is \<open>None\<close>, as \<^verbatim>\<open>null\<close> is, since the
  callers only test it for truth.
\<close>

fun JSON_parse :: "'a stored \<Rightarrow> error + 'a cache_entry option" where
  "JSON_parse (Json e) = Inr (Some e)"
| "JSON_parse Falsy = Inr None"
| "JSON_parse (Unparsable txt) = (if txt = [] then Inr None else Inl SyntaxError)"

subsection \<open>The cache and its methods\<close>

record 'a cache =
  memoryCache :: "(string \<times> 'a cache_entry) list"
  storage :: "'a async_storage"

text \<open>\<^verbatim>\<open>await\<close>: a rejection ends the method; \<^verbatim>\<open>try ... catch\<close> handles it.\<close>

definition await :: "('r, 's) settled \<Rightarrow> ('r \<Rightarrow> 's \<Rightarrow> ('q, 's) settled) \<Rightarrow> ('q, 's) settled" where
  "await m f = (case m of (Inl e, s) \<Rightarrow> (Inl e, s) | (Inr r, s) \<Rightarrow> f r s)"

definition try_catch :: "('r, 's) settled \<Rightarrow> (error \<Rightarrow> 's \<Rightarrow> ('r, 's) settled) \<Rightarrow> ('r, 's) settled" where
  "try_catch m h = (case m of (Inl e, s) \<Rightarrow> h e s | (Inr r, s) \<Rightarrow> (Inr r, s))"

definition on_storage ::
  "('a async_storage \<Rightarrow> ('r, 'a async_storage) settled) \<Rightarrow> 'a cache \<Rightarrow> ('r, 'a cache) settled" where
  "on_storage f s = (case f (storage s) of (r, st) \<Rightarrow> (r, s\<lparr>storage := st\<rparr>))"

fun for_of :: "'k list \<Rightarrow> ('k \<Rightarrow> 's \<Rightarrow> (unit, 's) settled) \<Rightarrow> 's \<Rightarrow> (unit, 's) settled" where
  "for_of [] body s = (Inr (), s)"
| "for_of (k # ks) body s = await (body k s) (\<lambda>_. for_of ks body)"

definition isExpired :: "int \<Rightarrow> 'a cache_entry \<Rightarrow> bool" where
  "isExpired now entry = js_gt now (expiresAt entry)"

definition setToStorage :: "string \<Rightarrow> 'a cache_entry \<Rightarrow> 'a cache \<Rightarrow> (unit, 'a cache) settled" where
  "setToStorage key entry s =
     try_catch (on_storage (setItem (storagePrefix @ key) (JSON_stringify entry)) s)
       (\<lambda>err s'. (Inr (), s'))"

definition getFromStorage :: "string \<Rightarrow> 'a cache \<Rightarrow> ('a cache_entry option, 'a cache) settled" where
  "getFromStorage key s =
     try_catch
       (await (on_storage (getItem (storagePrefix @ key)) s)
          (\<lambda>stored s'. case stored of
               None \<Rightarrow> (Inr None, s')
             | Some txt \<Rightarrow> (JSON_parse txt, s')))
       (\<lambda>err s'. (Inr None, s'))"

fun priorityOrder :: "priority \<Rightarrow> int" where
  "priorityOrder PLow = 0"
| "priorityOrder PNormal = 1"
| "priorityOrder PHigh = 2"

fun typeOrder :: "ctype \<Rightarrow> int" where
  "typeOrder TNonCritical = 0"
| "typeOrder TNormal = 1"
| "typeOrder TCritical = 2"

text \<open>
  \<^verbatim>\<open>priorityOrder[a.priority] + typeOrder[a.type]\<close>: a lookup of \<^verbatim>\<open>undefined\<close>
  gives \<^verbatim>\<open>undefined\<close>, and the sum is then \<open>NaN\<close>.
\<close>

definition score :: "'a cache_entry \<Rightarrow> jsnum" where
  "score a = (case (priority a, type a) of
                (Some p, Some t) \<Rightarrow> Num (priorityOrder p + typeOrder t)
              | _ \<Rightarrow> NaN)"

definition compare :: "string \<times> 'a cache_entry \<Rightarrow> string \<times> 'a cache_entry \<Rightarrow> jsnum" where
  "compare x y = js_sub (score (snd x)) (score (snd y))"

text \<open>\<^verbatim>\<open>Math.max(1, Math.floor(this.maxMemoryCacheSize * 0.2))\<close>.\<close>

definition toRemove :: nat where
  "toRemove = max 1 (maxMemoryCacheSize * 2 div 10)"

definition evictFromMemoryCache :: "'a cache \<Rightarrow> 'a cache" where
  "evictFromMemoryCache s =
     (let entries = js_sort compare (memoryCache s)
      in s\<lparr>memoryCache := fold AList.delete (map fst (take toRemove entries)) (memoryCache s)\<rparr>)"

definition set_cache :: "int \<Rightarrow> string \<Rightarrow> 'a \<Rightarrow> custom_config option \<Rightarrow> 'a cache \<Rightarrow> (unit, 'a cache) settled" where
  "set_cache now key d customConfig s =
     (let config = spread (or_empty (cacheConfigs key)) (or_absent customConfig);
          entry = \<lparr>data = d, timestamp = now, expiresAt = js_add now (maxAge config),
                   priority = cfg_priority config, type = cfg_type config\<rparr>;
          s1 = s\<lparr>memoryCache := AList.update key entry (memoryCache s)\<rparr>;
          s2 = (if length (memoryCache s1) > maxMemoryCacheSize
                then evictFromMemoryCache s1 else s1)
      in await (setToStorage key entry s2) (\<lambda>_ s3. (Inr (), s3)))"

definition remove :: "string \<Rightarrow> 'a cache \<Rightarrow> (unit, 'a cache) settled" where
  "remove key s =
     (let s1 = s\<lparr>memoryCache := AList.delete key (memoryCache s)\<rparr>
      in await (on_storage (removeItem (storagePrefix @ key)) s1) (\<lambda>_ s2. (Inr (), s2)))"

text \<open>\<^verbatim>\<open>entry && !this.isExpired(entry)\<close>: the entry, when it is there and not expired.\<close>

fun unexpired :: "int \<Rightarrow> 'a cache_entry option \<Rightarrow> 'a cache_entry option" where
  "unexpired now None = None"
| "unexpired now (Some e) = (if isExpired now e then None else Some e)"

definition get :: "int \<Rightarrow> string \<Rightarrow> 'a cache \<Rightarrow> ('a option, 'a cache) settled" where
  "get now key s =
     (let memoryEntry = map_of (memoryCache s) key in
      case unexpired now memoryEntry of
        Some e \<Rightarrow> (Inr (Some (data e)), s)
      | None \<Rightarrow>
          await (getFromStorage key s) (\<lambda>storageEntry s1.
            case unexpired now storageEntry of
              Some e \<Rightarrow>
                (Inr (Some (data e)), s1\<lparr>memoryCache := AList.update key e (memoryCache s1)\<rparr>)
            | None \<Rightarrow>
                if memoryEntry \<noteq> None \<or> storageEntry \<noteq> None
                then await (remove key s1) (\<lambda>_ s2. (Inr None, s2))
                else (Inr None, s1)))"

definition clear :: "'a cache \<Rightarrow> (unit, 'a cache) settled" where
  "clear s =
     (let s1 = s\<lparr>memoryCache := []\<rparr>
      in await (on_storage getAllKeys s1) (\<lambda>keys s2.
           let cacheKeys = filter (\<lambda>key. startsWith key storagePrefix) keys
           in await (on_storage (multiRemove cacheKeys) s2) (\<lambda>_ s3. (Inr (), s3))))"

definition criticalKeys :: "string list" where
  "criticalKeys = [''userProfile'', ''medicalHistory'', ''emergencyContacts'']"

definition warmupKey :: "string \<Rightarrow> 'a cache \<Rightarrow> (unit, 'a cache) settled" where
  "warmupKey key s =
     try_catch
       (await (getFromStorage key s) (\<lambda>found s1.
          case found of
            Some e \<Rightarrow>
              (Inr (), s1\<lparr>memoryCache :=
                 AList.update key (e\<lparr>priority := Some PHigh, type := Some TCritical\<rparr>)
                   (memoryCache s1)\<rparr>)
          | None \<Rightarrow> (Inr (), s1)))
       (\<lambda>err s'. (Inr (), s'))"

definition warmupCriticalCache :: "'a cache \<Rightarrow> (unit, 'a cache) settled" where
  "warmupCriticalCache s = for_of criticalKeys warmupKey s"

definition performCleanup :: "int \<Rightarrow> 'a cache \<Rightarrow> (unit, 'a cache) settled" where
  "performCleanup now s =
     (let expiredKeys = map fst (filter (\<lambda>(key, entry). isExpired now entry) (memoryCache s))
      in for_of expiredKeys
           (\<lambda>key s1. on_storage (removeItem (storagePrefix @ key))
                        (s1\<lparr>memoryCache := AList.delete key (memoryCache s1)\<rparr>)) s)"

text \<open>
  The state the constructor starts from: an empty \<^verbatim>\<open>Map\<close> over whatever the device
  has stored.
\<close>

definition new_cache :: "'a async_storage \<Rightarrow> 'a cache" where
  "new_cache st = \<lparr>memoryCache = [], storage = st\<rparr>"

definition working :: "(string \<times> 'a stored) list \<Rightarrow> 'a async_storage" where
  "working kvs = \<lparr>items = kvs, failGetItem = False, failSetItem = False,
     failRemoveItem = False, failGetAllKeys = False, failMultiRemove = False\<rparr>"

subsection \<open>Notions used in the statements and proofs\<close>

text \<open>
  The entry \<^verbatim>\<open>set\<close> builds, and the state after its \<^verbatim>\<open>memoryCache.set\<close>, before
  the capacity check.
\<close>

definition entry_of :: "int \<Rightarrow> string \<Rightarrow> 'a \<Rightarrow> custom_config option \<Rightarrow> 'a cache_entry" where
  "entry_of now key d customConfig =
     (let config = spread (or_empty (cacheConfigs key)) (or_absent customConfig)
      in \<lparr>data = d, timestamp = now, expiresAt = js_add now (maxAge config),
          priority = cfg_priority config, type = cfg_type config\<rparr>)"

definition inserted :: "int \<Rightarrow> string \<Rightarrow> 'a \<Rightarrow> custom_config option \<Rightarrow> 'a cache \<Rightarrow> 'a cache" where
  "inserted now key d cc s =
     s\<lparr>memoryCache := AList.update key (entry_of now key d cc) (memoryCache s)\<rparr>"

text \<open>What \<^verbatim>\<open>getFromStorage\<close> resolves to: the entry stored under the key, when the
  read works and the text is an entry's.\<close>

definition readable :: "string \<Rightarrow> 'a cache \<Rightarrow> 'a cache_entry option" where
  "readable key s =
     (if failGetItem (storage s) then None
      else case map_of (items (storage s)) (storagePrefix @ key) of
             Some (Json e) \<Rightarrow> Some e
           | _ \<Rightarrow> None)"

text \<open>An entry as the interface types it: priority and type are defined. Its score is
  then a number, its rank.\<close>

definition typed :: "string \<times> 'a cache_entry \<Rightarrow> bool" where
  "typed x = (priority (snd x) \<noteq> None \<and> type (snd x) \<noteq> None)"

definition rank :: "string \<times> 'a cache_entry \<Rightarrow> int" where
  "rank x = (case score (snd x) of Num a \<Rightarrow> a | _ \<Rightarrow> 0)"

text \<open>Scenarios: calls in sequence, each on the state the one before left.\<close>

fun set_each :: "int \<Rightarrow> custom_config option \<Rightarrow> 'a \<Rightarrow> string list \<Rightarrow> 'a cache \<Rightarrow> 'a cache" where
  "set_each now cc d [] s = s"
| "set_each now cc d (k # ks) s = set_each now cc d ks (snd (set_cache now k d cc s))"

fun get_each :: "int \<Rightarrow> string list \<Rightarrow> 'a cache \<Rightarrow> 'a cache" where
  "get_each now [] s = s"
| "get_each now (k # ks) s = get_each now ks (snd (get now k s))"

text \<open>\<open>n\<close> distinct one-letter keys, from the letter with code \<open>a\<close> on.\<close>

definition keys_from :: "nat \<Rightarrow> nat \<Rightarrow> string list" where
  "keys_from a n = map (\<lambda>i. [char_of i]) [a..<a + n]"

definition sample :: "priority \<Rightarrow> ctype \<Rightarrow> nat cache_entry" where
  "sample p t = \<lparr>data = 0, timestamp = 0, expiresAt = Num 1000, priority = Some p, type = Some t\<rparr>"


text \<open>A storage whose every operation rejects, and two overrides.\<close>

definition broken :: "'a async_storage" where
  "broken = \<lparr>items = [], failGetItem = True, failSetItem = True,
     failRemoveItem = True, failGetAllKeys = True, failMultiRemove = True\<rparr>"

definition hi :: "custom_config option" where
  "hi = Some (Override 1000 PHigh TCritical)"

definition lo :: "custom_config option" where
  "lo = Some (Override 1000 PLow TNonCritical)"

text \<open>Fifty \<^verbatim>\<open>set\<close> calls at time 0 with distinct keys, high priority and critical
  type, on a new cache over the given storage.\<close>

definition filled :: "nat async_storage \<Rightarrow> nat cache" where
  "filled st = set_each 0 hi 0 (keys_from 65 50) (new_cache st)"

text \<open>
  A first session on a device with an empty, working storage: \<open>n\<close> \<^verbatim>\<open>set\<close> calls at
  time 0 with distinct keys, low priority and non-critical type. Then the application
  restarts: the constructor's warmup runs on a new cache over the storage the first
  session left.
\<close>

definition session1 :: "nat \<Rightarrow> nat cache" where
  "session1 n = set_each 0 lo 0 (keys_from 65 n) (new_cache (working []))"

definition restart :: "'a cache \<Rightarrow> 'a cache" where
  "restart s = snd (warmupCriticalCache (new_cache (storage s)))"

text \<open>After a first session of 51 keys and a restart, \<^verbatim>\<open>get\<close> of 50 of the keys.\<close>

definition promoted :: "nat cache" where
  "promoted = get_each 0 (keys_from 65 50) (restart (session1 51))"

text \<open>After a first session of 60 keys and a restart, \<^verbatim>\<open>get\<close> of the 60 keys.\<close>

definition overfull :: "nat cache" where
  "overfull = get_each 0 (keys_from 65 60) (restart (session1 60))"

text \<open>The records such a session leaves in the storage.\<close>

definition records :: "string list \<Rightarrow> (string \<times> nat stored) list" where
  "records ks = map (\<lambda>k. (storagePrefix @ k, Json (sample PLow TNonCritical))) ks"

text \<open>A record of the user profile that expired at time 5, and a device that holds it
  together with a key of another module.\<close>

definition stale :: "nat cache_entry" where
  "stale = \<lparr>data = 7, timestamp = 0, expiresAt = Num 5, priority = Some PLow, type = Some TNonCritical\<rparr>"

definition device :: "nat async_storage" where
  "device = working [(storagePrefix @ ''userProfile'', Json stale), (''auth_token'', Unparsable ''abc''),
     (storagePrefix @ ''medicalHistory'', Unparsable ''{'')]"

text \<open>A cache in use on that device: the profile is resident.\<close>

definition used :: "nat cache" where
  "used = \<lparr>memoryCache = [(''userProfile'', stale)], storage = device\<rparr>"


text \<open>
  After a first session of 50 keys and a restart: a \<^verbatim>\<open>set\<close> of \<^verbatim>\<open>labResults\<close>
  without an override, then a \<^verbatim>\<open>get\<close> of each of the 50 stored keys. The memory cache
  then holds 51 entries, \<^verbatim>\<open>labResults\<close> first.
\<close>

definition crowded :: "nat cache" where
  "crowded = get_each 0 (keys_from 65 50)
               (snd (set_cache 0 ''labResults'' 7 None (restart (session1 50))))"

text \<open>The entry that \<^verbatim>\<open>set\<close> builds at time \<open>now\<close> for a key without policy.\<close>

definition unpolicied :: "'a \<Rightarrow> int \<Rightarrow> 'a cache_entry" where
  "unpolicied d now = \<lparr>data = d, timestamp = now, expiresAt = NaN, priority = None, type = None\<rparr>"

section \<open>Auxiliary facts\<close>

lemma setToStorage_eq:
  "setToStorage key entry s =
     (Inr (), if failSetItem (storage s) then s
              else s\<lparr>storage := (storage s)\<lparr>items :=
                     AList.update (storagePrefix @ key) (JSON_stringify entry) (items (storage s))\<rparr>\<rparr>)"
  by (simp add: setToStorage_def try_catch_def on_storage_def setItem_def)


lemma getFromStorage_eq: "getFromStorage key s = (Inr (readable key s), s)"
  by (simp add: getFromStorage_def readable_def try_catch_def await_def on_storage_def getItem_def
      split: option.splits stored.splits)

lemma fold_delete_filter:
  "fold AList.delete ks xs = filter (\<lambda>kv. fst kv \<notin> set ks) xs"
proof (induction ks arbitrary: xs)
  case Nil
  then show ?case by simp
next
  case (Cons k ks)
  have "AList.delete k xs = filter (\<lambda>kv. fst kv \<noteq> k) xs"
    by (simp add: AList.delete_eq case_prod_unfold eq_commute)
  then show ?case
    using Cons.IH [of "AList.delete k xs"] by (simp add: conj_commute) 
qed



lemma set_cache_eq:
  "set_cache now key d cc s =
     (let s1 = inserted now key d cc s;
          s2 = (if length (memoryCache s1) > maxMemoryCacheSize then evictFromMemoryCache s1 else s1)
      in (Inr (), if failSetItem (storage s) then s2
              else s2\<lparr>storage := (storage s)\<lparr>items :=
                     AList.update (storagePrefix @ key) (JSON_stringify (entry_of now key d cc)) (items (storage s))\<rparr>\<rparr>))"
  by (simp add: set_cache_def setToStorage_eq await_def Let_def entry_of_def inserted_def evictFromMemoryCache_def)

lemma typed_score: "typed x \<Longrightarrow> score (snd x) = Num (rank x)"
  by (auto simp: typed_def rank_def score_def)

lemma not_after_compare:
  "typed x \<Longrightarrow> typed y \<Longrightarrow> not_after (compare x y) = (rank x \<le> rank y)"
  by (simp add: compare_def typed_score)

lemma insort_by_rank:
  "typed x \<Longrightarrow> list_all typed ys \<Longrightarrow> insort_by compare x ys = insort_key rank x ys"
  by (induction ys) (simp_all add: not_after_compare)

lemma js_sort_rank:
  "list_all typed xs \<Longrightarrow> js_sort compare xs = sort_key rank xs"
proof (induction xs)
  case Nil
  then show ?case by (simp add: js_sort_def)
next
  case (Cons x xs)
  then have "list_all typed (sort_key rank xs)"
    by (simp add: list_all_iff)
  with Cons show ?case
    by (simp add: js_sort_def sort_key_def insort_by_rank)
qed

lemma toRemove_10: "toRemove = 10"
  by (simp add: toRemove_def maxMemoryCacheSize_def)

lemma evict_eq:
  "memoryCache (evictFromMemoryCache s) =
     filter (\<lambda>kv. fst kv \<notin> fst ` set (take toRemove (js_sort compare (memoryCache s)))) (memoryCache s)"
  by (simp add: evictFromMemoryCache_def fold_delete_filter)




lemma insort_by_set: "set (insort_by cmp x ys) = insert x (set ys)"
  by (induction ys) auto

lemma insort_by_length: "length (insort_by cmp x ys) = Suc (length ys)"
  by (induction ys) auto

lemma js_sort_set: "set (js_sort cmp xs) = set xs"
  by (induction xs) (simp_all add: js_sort_def insort_by_set)

lemma js_sort_length: "length (js_sort cmp xs) = length xs"
  by (induction xs) (simp_all add: js_sort_def insort_by_length)

lemma js_sort_distinct:
  assumes "distinct (map fst xs)"
  shows "distinct (map fst (js_sort cmp xs))"
proof -
  have "card (set (map fst (js_sort cmp xs))) = card (set (map fst xs))"
    by (simp add: js_sort_set)
  also have "\<dots> = length (map fst xs)"
    using assms by (rule distinct_card)
  also have "\<dots> = length (map fst (js_sort cmp xs))"
    by (simp add: js_sort_length)
  finally show ?thesis by (rule card_distinct)
qed

lemma evict_set:
  assumes d: "distinct (map fst (memoryCache s))"
  shows "set (memoryCache (evictFromMemoryCache s)) =
           set (drop toRemove (js_sort compare (memoryCache s)))"
proof -
  let ?S = "js_sort compare (memoryCache s)"
  have split: "?S = take toRemove ?S @ drop toRemove ?S" by simp
  have "distinct (map fst ?S)" using d by (rule js_sort_distinct)
  then have disj: "fst ` set (take toRemove ?S) \<inter> fst ` set (drop toRemove ?S) = {}"
    by (metis split distinct_append map_append set_map)
  have un: "set (memoryCache s) = set (take toRemove ?S) \<union> set (drop toRemove ?S)"
    by (metis split set_append js_sort_set)
  show ?thesis
    unfolding evict_eq using disj un by auto
qed

lemma evict_length:
  assumes d: "distinct (map fst (memoryCache s))"
  shows "length (memoryCache (evictFromMemoryCache s)) = length (memoryCache s) - toRemove"
proof -
  let ?M = "memoryCache s" and ?M' = "memoryCache (evictFromMemoryCache s)"
  let ?D = "drop toRemove (js_sort compare ?M)"
  have dM: "distinct ?M" using d by (simp add: distinct_map)
  have "distinct (map fst (js_sort compare ?M))" using d by (rule js_sort_distinct)
  then have "distinct (js_sort compare ?M)" by (simp add: distinct_map)
  then have "distinct ?D" by simp
  moreover have "distinct ?M'" using dM by (simp add: evict_eq)
  moreover have "set ?M' = set ?D" by (rule evict_set [OF d])
  ultimately have "length ?M' = length ?D"
    by (metis distinct_card)
  then show ?thesis by (simp add: js_sort_length)
qed

lemma set_cache_length:
  assumes d: "distinct (map fst (memoryCache s))"
  shows "length (memoryCache (snd (set_cache now key v cc s))) =
           (if maxMemoryCacheSize < length (memoryCache (inserted now key v cc s))
            then length (memoryCache (inserted now key v cc s)) - toRemove
            else length (memoryCache (inserted now key v cc s)))"
proof -
  have "distinct (map fst (memoryCache (inserted now key v cc s)))"
    using d by (simp add: inserted_def distinct_update)
  then show ?thesis
    by (simp add: set_cache_eq Let_def evict_length)
qed

lemma remove_eq:
  "remove key s =
     (if failRemoveItem (storage s)
      then (Inl StorageError, s\<lparr>memoryCache := AList.delete key (memoryCache s)\<rparr>)
      else (Inr (), \<lparr>memoryCache = AList.delete key (memoryCache s),
                     storage = (storage s)\<lparr>items := AList.delete (storagePrefix @ key) (items (storage s))\<rparr>\<rparr>))"
  by (simp add: remove_def await_def on_storage_def removeItem_def Let_def)

lemma get_memory_hit:
  "map_of (memoryCache s) key = Some e \<Longrightarrow> \<not> isExpired now e \<Longrightarrow>
   get now key s = (Inr (Some (data e)), s)"
  by (simp add: get_def)

lemma get_storage_hit:
  "unexpired now (map_of (memoryCache s) key) = None \<Longrightarrow> readable key s = Some e \<Longrightarrow>
   \<not> isExpired now e \<Longrightarrow>
   get now key s = (Inr (Some (data e)), s\<lparr>memoryCache := AList.update key e (memoryCache s)\<rparr>)"
  by (simp add: get_def getFromStorage_eq await_def)

lemma get_miss:
  "unexpired now (map_of (memoryCache s) key) = None \<Longrightarrow>
   unexpired now (readable key s) = None \<Longrightarrow>
   get now key s =
     (if map_of (memoryCache s) key \<noteq> None \<or> readable key s \<noteq> None
      then await (remove key s) (\<lambda>_ s2. (Inr None, s2)) else (Inr None, s))"
  by (simp add: get_def getFromStorage_eq await_def)

lemma get_miss_working:
  "unexpired now (map_of (memoryCache s) key) = None \<Longrightarrow>
   unexpired now (readable key s) = None \<Longrightarrow> \<not> failRemoveItem (storage s) \<Longrightarrow>
   fst (get now key s) = Inr None"
  by (simp add: get_miss remove_eq await_def)

lemma get_returns_unexpired:
  assumes "fst (get now key s) = Inr (Some d)"
  shows "\<exists>e. (map_of (memoryCache s) key = Some e \<or> readable key s = Some e) \<and>
             data e = d \<and> \<not> isExpired now e"
proof (cases "unexpired now (map_of (memoryCache s) key)")
  case (Some e)
  then have "map_of (memoryCache s) key = Some e" "\<not> isExpired now e"
    by (cases "map_of (memoryCache s) key"; simp split: if_splits)+
  with assms show ?thesis by (auto simp: get_memory_hit)
next
  case None
  note m = this
  show ?thesis
  proof (cases "unexpired now (readable key s)")
    case (Some e)
    then have r: "readable key s = Some e" "\<not> isExpired now e"
      by (cases "readable key s"; simp split: if_splits)+
    with assms m show ?thesis by (auto simp: get_storage_hit)
  next
    case None
    with assms m show ?thesis
      by (simp add: get_miss remove_eq await_def split: if_splits)
  qed
qed

lemma map_of_filter_key:
  "map_of (filter (\<lambda>kv. fst kv \<notin> A) xs) k = (if k \<in> A then None else map_of xs k)"
  by (induction xs) auto

lemma map_of_evict:
  "map_of (memoryCache (evictFromMemoryCache s)) key =
     (if key \<in> fst ` set (take toRemove (js_sort compare (memoryCache s))) then None
      else map_of (memoryCache s) key)"
  unfolding evict_eq by (rule map_of_filter_key)

lemma storage_set_cache:
  "storage (snd (set_cache now key d cc s)) =
     (if failSetItem (storage s) then storage s
      else (storage s)\<lparr>items :=
             AList.update (storagePrefix @ key) (JSON_stringify (entry_of now key d cc))
               (items (storage s))\<rparr>)"
  by (simp add: set_cache_eq Let_def inserted_def evictFromMemoryCache_def)

lemma memory_set_cache:
  "memoryCache (snd (set_cache now key d cc s)) =
     (if length (memoryCache (inserted now key d cc s)) > maxMemoryCacheSize
      then memoryCache (evictFromMemoryCache (inserted now key d cc s))
      else memoryCache (inserted now key d cc s))"
  by (simp add: set_cache_eq Let_def)

lemma map_of_set_cache:
  "map_of (memoryCache (snd (set_cache now key d cc s))) key = None \<or>
   map_of (memoryCache (snd (set_cache now key d cc s))) key = Some (entry_of now key d cc)"
  by (simp add: memory_set_cache map_of_evict inserted_def update_conv')

lemma entry_of_policy:
  "cacheConfigs key = Some cfg \<Longrightarrow> maxAge cfg = Some w \<Longrightarrow>
   data (entry_of now key d None) = d \<and> expiresAt (entry_of now key d None) = Num (now + w)"
  by (simp add: entry_of_def spread_def no_custom_def)

lemma readable_after_set:
  "\<not> failSetItem (storage s) \<Longrightarrow> \<not> failGetItem (storage s) \<Longrightarrow>
   expiresAt (entry_of now key d cc) \<noteq> NaN \<Longrightarrow>
   readable key (snd (set_cache now key d cc s)) = Some (entry_of now key d cc)"
  by (simp add: readable_def storage_set_cache update_conv' JSON_stringify_def split: jsnum.splits)

lemma flags_set_cache:
  "failSetItem (storage (snd (set_cache now key d cc s))) = failSetItem (storage s)"
  "failGetItem (storage (snd (set_cache now key d cc s))) = failGetItem (storage s)"
  "failRemoveItem (storage (snd (set_cache now key d cc s))) = failRemoveItem (storage s)"
  by (simp_all add: storage_set_cache)

lemma readable_Some_iff:
  "readable k s = Some e \<longleftrightarrow>
     \<not> failGetItem (storage s) \<and> map_of (items (storage s)) (storagePrefix @ k) = Some (Json e)"
  by (auto simp: readable_def split: option.splits stored.splits)

lemma length_update_le: "length (AList.update k v xs) \<le> Suc (length xs)"
  by (induction xs) auto

lemma resident_when_room:
  assumes "length (memoryCache s) < maxMemoryCacheSize"
  shows "map_of (memoryCache (snd (set_cache now key d cc s))) key = Some (entry_of now key d cc)"
proof -
  have "length (memoryCache (inserted now key d cc s)) \<le> maxMemoryCacheSize"
    using assms length_update_le [of key "entry_of now key d cc" "memoryCache s"]
    by (simp add: inserted_def)
  then show ?thesis
    by (simp add: memory_set_cache inserted_def update_conv')
qed

lemma warmupKey_eq:
  "warmupKey key s =
     (Inr (), case readable key s of
                Some e \<Rightarrow> s\<lparr>memoryCache := AList.update key
                            (e\<lparr>priority := Some PHigh, type := Some TCritical\<rparr>) (memoryCache s)\<rparr>
              | None \<Rightarrow> s)"
  by (simp add: warmupKey_def getFromStorage_eq await_def try_catch_def split: option.splits)

lemma readable_memory [simp]: "readable key (s\<lparr>memoryCache := M\<rparr>) = readable key s"
  by (simp add: readable_def)

lemma clear_eq:
  "clear s =
     (if failGetAllKeys (storage s) \<or> failMultiRemove (storage s)
      then (Inl StorageError, s\<lparr>memoryCache := []\<rparr>)
      else (Inr (), \<lparr>memoryCache = [],
              storage = (storage s)\<lparr>items :=
                filter (\<lambda>kv. \<not> startsWith (fst kv) storagePrefix) (items (storage s))\<rparr>\<rparr>))"
proof -
  have "filter (\<lambda>kv. fst kv \<notin> set (filter (\<lambda>key. startsWith key storagePrefix) (map fst xs))) xs
        = filter (\<lambda>kv. \<not> startsWith (fst kv) storagePrefix) xs" for xs :: "(string \<times> 'a stored) list"
    by (rule filter_cong) auto
  then show ?thesis
    by (simp add: clear_def await_def on_storage_def getAllKeys_def multiRemove_def Let_def
        fold_delete_filter)
qed

lemma update_absent: "map_of xs k = None \<Longrightarrow> AList.update k v xs = xs @ [(k, v)]"
  by (induction xs) (auto split: if_splits)

lemma hd_sort_key_least:
  assumes x: "x \<in> set xs" and least: "\<forall>y \<in> set xs. y \<noteq> x \<longrightarrow> f x < f y"
  shows "hd (sort_key f xs) = x"
proof -
  let ?S = "sort_key f xs"
  from x have ne: "?S \<noteq> []" by (metis empty_iff empty_set set_sort)
  then obtain h tl where S: "?S = h # tl" by (cases ?S) auto
  have "sorted (map f ?S)" by (rule sorted_sort_key)
  with S x have "f h \<le> f x" by (metis list.simps(9) set_ConsD set_sort sorted_simps(2) imageI list.set_map order_refl)
  moreover have "h \<in> set xs" using S by (metis list.set_intros(1) set_sort)
  ultimately have "h = x" using least by fastforce
  with S show ?thesis by simp
qed

lemma own_entry_evicted:
  assumes d: "distinct (map fst (memoryCache s))"
    and full: "maxMemoryCacheSize \<le> length (memoryCache s)"
    and absent: "map_of (memoryCache s) key = None"
    and cfg: "spread (or_empty (cacheConfigs key)) (or_absent cc) = CacheConfig w p c"
    and higher: "\<forall>x \<in> set (memoryCache s). \<exists>p' c'. priority (snd x) = Some p' \<and>
                   type (snd x) = Some c' \<and>
                   priorityOrder p + typeOrder c < priorityOrder p' + typeOrder c'"
  shows "map_of (memoryCache (snd (set_cache now key v cc s))) key = None \<and>
         length (memoryCache (snd (set_cache now key v cc s))) + 9 = length (memoryCache s)"
proof -
  let ?e = "\<lparr>data = v, timestamp = now, expiresAt = Num (now + w), priority = Some p, type = Some c\<rparr>"
  let ?s1 = "inserted now key v cc s"
  let ?x = "(key, ?e)"
  have e: "entry_of now key v cc = ?e"
    by (simp add: entry_of_def cfg CacheConfig_def)
  have M1: "memoryCache ?s1 = memoryCache s @ [?x]"
    using absent by (simp add: inserted_def e update_absent)
  have over: "maxMemoryCacheSize < length (memoryCache ?s1)"
    using full by (simp add: M1)
  have knew: "key \<notin> fst ` set (memoryCache s)"
    using absent by (simp add: map_of_eq_None_iff)
  have d1: "distinct (map fst (memoryCache ?s1))"
    using d knew by (simp add: M1)
  have rx: "rank ?x = priorityOrder p + typeOrder c"
    by (simp add: rank_def score_def)
  have ry: "typed y \<and> rank ?x < rank y" if "y \<in> set (memoryCache s)" for y
    using higher that rx by (fastforce simp: typed_def rank_def score_def)
  have t1: "list_all typed (memoryCache ?s1)"
    using ry by (simp add: M1 list_all_iff typed_def)
  have "hd (sort_key rank (memoryCache ?s1)) = ?x"
  proof (rule hd_sort_key_least)
    show "?x \<in> set (memoryCache ?s1)" by (simp add: M1)
    show "\<forall>y \<in> set (memoryCache ?s1). y \<noteq> ?x \<longrightarrow> rank ?x < rank y"
      using ry by (auto simp: M1)
  qed
  moreover have "sort_key rank (memoryCache ?s1) \<noteq> []"
    by (metis M1 length_sort length_0_conv snoc_eq_iff_butlast)
  ultimately have "?x \<in> set (take toRemove (js_sort compare (memoryCache ?s1)))"
    by (cases "sort_key rank (memoryCache ?s1)") (simp_all add: js_sort_rank [OF t1] toRemove_10)
  then have "key \<in> fst ` set (take toRemove (js_sort compare (memoryCache ?s1)))"
    by force
  then have gone: "map_of (memoryCache (evictFromMemoryCache ?s1)) key = None"
    by (simp add: map_of_evict)
  have len: "length (memoryCache (evictFromMemoryCache ?s1)) + 9 = length (memoryCache s)"
    using evict_length [OF d1] full
    by (simp add: M1 toRemove_10 maxMemoryCacheSize_def)
  from over gone len show ?thesis
    by (simp add: memory_set_cache)
qed

lemma storage_set_each_failing:
  "failSetItem (storage s) \<Longrightarrow> storage (set_each now cc d ks s) = storage s"
  by (induction ks arbitrary: s) (simp_all add: storage_set_cache)

lemma flags_set_each:
  "failSetItem (storage (set_each now cc d ks s)) = failSetItem (storage s)"
  "failGetItem (storage (set_each now cc d ks s)) = failGetItem (storage s)"
  by (induction ks arbitrary: s) (simp_all add: flags_set_cache)

lemma distinct_keys_from: "a + n \<le> 256 \<Longrightarrow> distinct (keys_from a n)"
proof -
  assume le: "a + n \<le> 256"
  have "inj_on (\<lambda>i. [char_of i]) (set [a..<a + n])"
  proof (rule inj_onI)
    fix i j assume i: "i \<in> set [a..<a + n]" and j: "j \<in> set [a..<a + n]"
      and eq: "[char_of i :: char] = [char_of j]"
    from eq have "char_of i = (char_of j :: char)" by simp
    then have "of_char (char_of i :: char) = (of_char (char_of j :: char) :: nat)" by simp
    then have "i mod 256 = j mod 256" by (simp only: of_char_of)
    moreover from i j le have "i < 256" "j < 256" by auto
    ultimately show "i = j" by simp
  qed
  then show ?thesis
    by (simp add: keys_from_def distinct_map)
qed

lemma keys_from_facts:
  "length (keys_from a n) = n"
  "''notifications'' \<notin> set (keys_from a n)"
  by (auto simp: keys_from_def)

lemma keys_from_Suc: "keys_from a (Suc n) = keys_from a n @ [[char_of (a + n)]]"
  by (simp add: keys_from_def)

lemma set_cache_room:
  assumes "map_of (memoryCache s) k = None" "length (memoryCache s) < maxMemoryCacheSize"
  shows "memoryCache (snd (set_cache now k d cc s)) = memoryCache s @ [(k, entry_of now k d cc)]"
  using assms by (simp add: memory_set_cache inserted_def update_absent)

lemma set_each_room:
  assumes "distinct ks" "\<forall>k \<in> set ks. map_of (memoryCache s) k = None"
    and "length (memoryCache s) + length ks \<le> maxMemoryCacheSize"
  shows "memoryCache (set_each now cc d ks s) =
           memoryCache s @ map (\<lambda>k. (k, entry_of now k d cc)) ks"
  using assms
proof (induction ks arbitrary: s)
  case Nil
  then show ?case by simp
next
  case (Cons k ks)
  let ?s1 = "snd (set_cache now k d cc s)"
  have M1: "memoryCache ?s1 = memoryCache s @ [(k, entry_of now k d cc)]"
    using Cons.prems by (simp add: set_cache_room)
  have "memoryCache (set_each now cc d ks ?s1) =
          memoryCache ?s1 @ map (\<lambda>k. (k, entry_of now k d cc)) ks"
  proof (rule Cons.IH)
    show "distinct ks" using Cons.prems by simp
    show "\<forall>k' \<in> set ks. map_of (memoryCache ?s1) k' = None"
      using Cons.prems by (auto simp: M1 map_add_def)
    show "length (memoryCache ?s1) + length ks \<le> maxMemoryCacheSize"
      using Cons.prems by (simp add: M1)
  qed
  then show ?case by (simp add: M1)
qed

lemma get_promote:
  assumes "map_of (memoryCache s) k = None" "readable k s = Some e" "\<not> isExpired now e"
  shows "snd (get now k s) = s\<lparr>memoryCache := memoryCache s @ [(k, e)]\<rparr>"
proof -
  from assms(1) have "unexpired now (map_of (memoryCache s) k) = None" by simp
  from get_storage_hit [OF this assms(2,3)] assms(1) show ?thesis
    by (simp add: update_absent)
qed

lemma get_each_promotes:
  assumes "distinct ks" "\<forall>k \<in> set ks. map_of (memoryCache s) k = None"
    and "\<forall>k \<in> set ks. readable k s = Some e \<and> \<not> isExpired now e"
  shows "get_each now ks s = s\<lparr>memoryCache := memoryCache s @ map (\<lambda>k. (k, e)) ks\<rparr>"
  using assms
proof (induction ks arbitrary: s)
  case Nil
  then show ?case by simp
next
  case (Cons k ks)
  let ?s1 = "s\<lparr>memoryCache := memoryCache s @ [(k, e)]\<rparr>"
  have step: "snd (get now k s) = ?s1"
    using Cons.prems by (simp add: get_promote)
  have "get_each now ks ?s1 = ?s1\<lparr>memoryCache := memoryCache ?s1 @ map (\<lambda>k. (k, e)) ks\<rparr>"
  proof (rule Cons.IH)
    show "distinct ks" using Cons.prems by simp
    show "\<forall>k' \<in> set ks. map_of (memoryCache ?s1) k' = None"
      using Cons.prems by (auto simp: map_add_def)
    show "\<forall>k' \<in> set ks. readable k' ?s1 = Some e \<and> \<not> isExpired now e"
      using Cons.prems by simp
  qed
  then show ?case by (simp add: step)
qed

lemma map_of_records:
  "k \<in> set ks \<Longrightarrow> map_of (records ks) (storagePrefix @ k) = Some (Json (sample PLow TNonCritical))"
  by (induction ks) (auto simp: records_def)

lemma readable_records:
  "k \<in> set ks \<Longrightarrow> readable k (new_cache (working (records ks))) = Some (sample PLow TNonCritical)"
  by (simp add: readable_def new_cache_def working_def map_of_records)


lemma keys_from_critical:
  "k \<in> set criticalKeys \<Longrightarrow> k \<notin> set (keys_from a n)"
  by (auto simp: keys_from_def criticalKeys_def)

lemma entry_of_override:
  "entry_of 0 k 0 hi = sample PHigh TCritical"
  "entry_of 0 k 0 lo = sample PLow TNonCritical"
  by (simp_all add: entry_of_def hi_def lo_def spread_def Override_def sample_def)

lemma filled_memory:
  "memoryCache (filled st) = map (\<lambda>k. (k, sample PHigh TCritical)) (keys_from 65 50)"
proof -
  have "memoryCache (filled st) =
          memoryCache (new_cache st) @ map (\<lambda>k. (k, entry_of 0 k 0 hi)) (keys_from 65 50)"
    unfolding filled_def
    by (rule set_each_room)
      (simp_all add: distinct_keys_from keys_from_facts new_cache_def maxMemoryCacheSize_def)
  then show ?thesis
    by (simp add: new_cache_def entry_of_override)
qed

lemma filled_facts:
  "distinct (map fst (memoryCache (filled st)))"
  "length (memoryCache (filled st)) = 50"
  "map_of (memoryCache (filled st)) ''notifications'' = None"
  by (simp_all add: filled_memory comp_def distinct_keys_from keys_from_facts map_of_eq_None_iff
      image_image)

lemma filled_higher:
  "\<forall>x \<in> set (memoryCache (filled st)). \<exists>p' c'. priority (snd x) = Some p' \<and>
      type (snd x) = Some c' \<and>
      priorityOrder PLow + typeOrder TNonCritical < priorityOrder p' + typeOrder c'"
  unfolding filled_memory by (auto simp: sample_def)

lemma storage_set_each:
  assumes "\<not> failSetItem (storage s)" "distinct ks"
    and "\<forall>k \<in> set ks. map_of (items (storage s)) (storagePrefix @ k) = None"
  shows "storage (set_each now cc d ks s) =
           (storage s)\<lparr>items := items (storage s) @
              map (\<lambda>k. (storagePrefix @ k, JSON_stringify (entry_of now k d cc))) ks\<rparr>"
  using assms
proof (induction ks arbitrary: s)
  case Nil
  then show ?case by simp
next
  case (Cons k ks)
  let ?s1 = "snd (set_cache now k d cc s)"
  have S1: "storage ?s1 = (storage s)\<lparr>items := items (storage s) @
              [(storagePrefix @ k, JSON_stringify (entry_of now k d cc))]\<rparr>"
    using Cons.prems by (simp add: storage_set_cache update_absent)
  have "storage (set_each now cc d ks ?s1) =
           (storage ?s1)\<lparr>items := items (storage ?s1) @
              map (\<lambda>k. (storagePrefix @ k, JSON_stringify (entry_of now k d cc))) ks\<rparr>"
  proof (rule Cons.IH)
    show "\<not> failSetItem (storage ?s1)" using Cons.prems by (simp add: S1)
    show "distinct ks" using Cons.prems by simp
    show "\<forall>k' \<in> set ks. map_of (items (storage ?s1)) (storagePrefix @ k') = None"
      using Cons.prems by (auto simp: S1 map_add_def)
  qed
  then show ?case by (simp add: S1)
qed

lemma storage_session1:
  assumes "65 + n \<le> 256"
  shows "storage (session1 n) = working (records (keys_from 65 n))"
proof -
  have "storage (session1 n) =
          (storage (new_cache (working [])))\<lparr>items := items (storage (new_cache (working []))) @
              map (\<lambda>k. (storagePrefix @ k, JSON_stringify (entry_of 0 k 0 lo))) (keys_from 65 n)\<rparr>"
    unfolding session1_def
    by (rule storage_set_each) (simp_all add: assms distinct_keys_from new_cache_def working_def)
  then show ?thesis
    by (simp add: new_cache_def working_def records_def entry_of_override JSON_stringify_def sample_def)
qed

lemma map_of_records_absent:
  "k \<notin> set ks \<Longrightarrow> map_of (records ks) (storagePrefix @ k) = None"
  by (induction ks) (auto simp: records_def)

lemma restart_records:
  assumes "storage s = working (records (keys_from a n))"
  shows "restart s = new_cache (working (records (keys_from a n)))"
proof -
  have "readable k (new_cache (working (records (keys_from a n)))\<lparr>memoryCache := M\<rparr>) = None"
    if "k \<in> set criticalKeys" for k M
    using keys_from_critical [OF that, of a n]
    by (simp add: readable_def new_cache_def working_def map_of_records_absent)
  then show ?thesis
    by (simp add: restart_def assms warmupCriticalCache_def criticalKeys_def warmupKey_eq await_def
        new_cache_def)
qed

lemma gets_after_restart:
  assumes "m \<le> n" "65 + n \<le> 256"
  shows "get_each 0 (keys_from 65 m) (restart (session1 n)) =
           \<lparr>memoryCache = map (\<lambda>k. (k, sample PLow TNonCritical)) (keys_from 65 m),
            storage = working (records (keys_from 65 n))\<rparr>"
proof -
  let ?s = "new_cache (working (records (keys_from 65 n)))"
  have sub: "set (keys_from 65 m) \<subseteq> set (keys_from 65 n)"
    using assms(1) by (auto simp: keys_from_def)
  have "get_each 0 (keys_from 65 m) ?s =
          ?s\<lparr>memoryCache := memoryCache ?s @ map (\<lambda>k. (k, sample PLow TNonCritical)) (keys_from 65 m)\<rparr>"
  proof (rule get_each_promotes)
    show "distinct (keys_from 65 m)" using assms by (simp add: distinct_keys_from)
    show "\<forall>k \<in> set (keys_from 65 m). map_of (memoryCache ?s) k = None"
      by (simp add: new_cache_def)
    show "\<forall>k \<in> set (keys_from 65 m). readable k ?s = Some (sample PLow TNonCritical) \<and>
            \<not> isExpired 0 (sample PLow TNonCritical)"
      using sub by (auto simp: readable_records isExpired_def sample_def)
  qed
  then show ?thesis
    by (simp add: restart_records [OF storage_session1 [OF assms(2)]] new_cache_def)
qed

lemma notifications_config:
  "cacheConfigs ''notifications'' = Some (CacheConfig 1800000 PLow TNonCritical)"
  "spread (or_empty (cacheConfigs ''notifications'')) (or_absent None) = CacheConfig 1800000 PLow TNonCritical"
  "maxAge (CacheConfig 1800000 PLow TNonCritical) = Some 1800000"
  by (simp_all add: cacheConfigs_def spread_def CacheConfig_def no_custom_def)

lemma entry_of_notifications:
  "entry_of now ''notifications'' v None =
     \<lparr>data = v, timestamp = now, expiresAt = Num (now + 1800000),
      priority = Some PLow, type = Some TNonCritical\<rparr>"
  by (simp add: entry_of_def cacheConfigs_def spread_def CacheConfig_def no_custom_def)

lemma successively_all_pairs:
  "(\<And>x y. x \<in> set xs \<Longrightarrow> y \<in> set xs \<Longrightarrow> P x y) \<Longrightarrow> successively P xs"
proof (induction xs)
  case Nil
  then show ?case by simp
next
  case (Cons a xs)
  have "successively P xs"
    by (rule Cons.IH) (simp add: Cons.prems)
  moreover have "P a (hd xs)" if "xs \<noteq> []"
    using that by (simp add: Cons.prems)
  ultimately show ?case
    by (auto simp: successively_Cons)
qed

lemma js_sort_run:
  "successively (\<lambda>x y. not_after (cmp x y)) xs \<Longrightarrow> js_sort cmp xs = xs"
proof (induction xs)
  case Nil
  then show ?case by (simp add: js_sort_def)
next
  case (Cons x xs)
  then have "js_sort cmp xs = xs"
    by (auto simp: successively_Cons)
  then have "js_sort cmp (x # xs) = insort_by cmp x xs"
    by (simp add: js_sort_def)
  also have "\<dots> = x # xs"
    using Cons.prems by (cases xs) (auto simp: successively_Cons)
  finally show ?case .
qed

lemma evicted_head:
  assumes "js_sort compare (memoryCache s) = memoryCache s" "memoryCache s = (k, e) # rest"
  shows "map_of (memoryCache (evictFromMemoryCache s)) k = None"
  using assms by (simp add: map_of_evict toRemove_10)


lemma keys_from_long: "length k \<noteq> 1 \<Longrightarrow> k \<notin> set (keys_from a n)"
  by (auto simp: keys_from_def)

lemma entry_of_unpolicied:
  "cacheConfigs key = None \<Longrightarrow> entry_of now key d None = unpolicied d now"
  by (simp add: entry_of_def spread_def no_config_def no_custom_def unpolicied_def)

lemma labResults_no_policy: "cacheConfigs ''labResults'' = None"
  by (simp add: cacheConfigs_def)

lemma compare_unpolicied:
  "not_after (compare (k, unpolicied d now) y)" "not_after (compare x (k, unpolicied d now))"
  by (cases "score (snd x)"; simp add: compare_def score_def unpolicied_def)+

lemma compare_sample_lo:
  "not_after (compare (k, sample PLow TNonCritical) (k', sample PLow TNonCritical))"
  by (simp add: compare_def score_def sample_def)





lemma crowded_eq:
  "crowded =
     \<lparr>memoryCache = (''labResults'', unpolicied 7 0) #
        map (\<lambda>k. (k, sample PLow TNonCritical)) (keys_from 65 50),
      storage = working (records (keys_from 65 50) @
        [(storagePrefix @ ''labResults'', Json ((unpolicied 7 0)\<lparr>expiresAt := Null\<rparr>))])\<rparr>"
proof -
  let ?s0 = "new_cache (working (records (keys_from 65 50)))"
  let ?s1 = "snd (set_cache 0 ''labResults'' 7 None ?s0)"
  have L: "''labResults'' \<notin> set (keys_from 65 50)"
    by (rule keys_from_long) simp
  have r: "restart (session1 50) = ?s0"
    by (rule restart_records) (simp add: storage_session1)
  have m1: "memoryCache ?s1 = [(''labResults'', unpolicied 7 0)]"
    by (simp add: set_cache_room new_cache_def maxMemoryCacheSize_def entry_of_unpolicied
        labResults_no_policy)
  have st1: "storage ?s1 = working (records (keys_from 65 50) @
        [(storagePrefix @ ''labResults'', Json ((unpolicied 7 0)\<lparr>expiresAt := Null\<rparr>))])"
    using L by (simp add: storage_set_cache new_cache_def working_def map_of_records_absent
        update_absent entry_of_unpolicied labResults_no_policy JSON_stringify_def unpolicied_def)
  have "get_each 0 (keys_from 65 50) ?s1 =
          ?s1\<lparr>memoryCache := memoryCache ?s1 @
             map (\<lambda>k. (k, sample PLow TNonCritical)) (keys_from 65 50)\<rparr>"
  proof (rule get_each_promotes)
    show "distinct (keys_from 65 50)" by (rule distinct_keys_from) simp
    show "\<forall>k \<in> set (keys_from 65 50). map_of (memoryCache ?s1) k = None"
      using L by (auto simp: m1)
    show "\<forall>k \<in> set (keys_from 65 50). readable k ?s1 = Some (sample PLow TNonCritical) \<and>
            \<not> isExpired 0 (sample PLow TNonCritical)"
      unfolding readable_def st1
      by (auto simp: working_def map_of_records isExpired_def sample_def map_add_def)
  qed
  then show ?thesis
    by (simp add: crowded_def r m1 st1)
qed

text \<open>An override whose \<^verbatim>\<open>maxAge\<close> is present and \<^verbatim>\<open>undefined\<close> hides the
  registry's window.\<close>

lemma override_undefined_window:
  "expiresAt (entry_of now ''notifications'' d (Some (no_custom\<lparr>custom_maxAge := Undefined\<rparr>))) = NaN \<and>
   priority (entry_of now ''notifications'' d (Some (no_custom\<lparr>custom_maxAge := Undefined\<rparr>))) = Some PLow"
  by (simp add: entry_of_def cacheConfigs_def spread_def CacheConfig_def no_custom_def)

section \<open>The properties of the specification, checked on the code\<close>

subsection \<open>C1: a missing policy\<close>

text \<open>
  C1 says that \<^verbatim>\<open>set\<close> on a key with no entry in \<^verbatim>\<open>cacheConfigs\<close> and no override
  fails with a MissingPolicy error. The code has no such error: for the key
  \<^verbatim>\<open>labResults\<close>, which the registry does not hold, \<^verbatim>\<open>set\<close> without an override
  resolves.
\<close>

theorem C1_counterexample:
  "cacheConfigs ''labResults'' = None \<and>
   fst (set_cache 0 ''labResults'' (7::nat) None (new_cache (working []))) = Inr ()"
  by (simp add: cacheConfigs_def set_cache_def setToStorage_eq await_def Let_def)

text \<open>
  C1, as amended: \<^verbatim>\<open>set\<close> has no hard error. Its promise resolves for every key,
  payload, override, clock value and state, whether or not the key has a policy and
  whether or not the storage works. For a key without policy and without override, the
  entry that \<^verbatim>\<open>set\<close> puts into the memory cache has \<^verbatim>\<open>expiresAt\<close> \<open>NaN\<close> and
  priority and type undefined.
\<close>

theorem C1_set_always_resolves:
  "fst (set_cache now key d customConfig s) = Inr () \<and>
   (cacheConfigs key = None \<longrightarrow>
      map_of (memoryCache (inserted now key d None s)) key =
        Some \<lparr>data = d, timestamp = now, expiresAt = NaN, priority = None, type = None\<rparr>)"
  by (simp add: set_cache_def setToStorage_eq await_def Let_def inserted_def update_conv'
      entry_of_unpolicied unpolicied_def)

theorem C1_set_always_resolves_witness:
  "cacheConfigs ''labResults'' = None \<and>
   fst (set_cache 5 ''labResults'' (7::nat) None (new_cache broken)) = Inr () \<and>
   map_of (memoryCache (inserted 5 ''labResults'' (7::nat) None (new_cache broken))) ''labResults'' =
     Some \<lparr>data = 7, timestamp = 5, expiresAt = NaN, priority = None, type = None\<rparr>"
  using C1_set_always_resolves [of 5 "''labResults''" "7::nat" None "new_cache broken"]
  by (simp add: labResults_no_policy)

subsection \<open>C2: set, then get\<close>

text \<open>
  C2 says that after \<^verbatim>\<open>set(key, v)\<close> at time \<open>t0\<close> with freshness window \<open>w\<close>,
  \<^verbatim>\<open>get(key)\<close> returns nothing at every time \<open>t \<ge> t0 + w\<close>. The code's test is
  \<^verbatim>\<open>Date.now() > entry.expiresAt\<close>: at \<open>t = t0 + w\<close> the entry is not expired.
  For \<^verbatim>\<open>notifications\<close> (window 30 minutes) set at time 0, \<^verbatim>\<open>get\<close> at time
  1800000 returns the value.
\<close>

theorem C2_counterexample:
  "fst (get (0 + 30 * 60 * 1000) ''notifications''
         (snd (set_cache 0 ''notifications'' (7::nat) None (new_cache (working []))))) = Inr (Some 7)"
  by code_simp

text \<open>
  C2, as amended: for a key with a policy in the registry, no override and a storage
  whose writes, reads and removals work, after \<^verbatim>\<open>set(key, v)\<close> at time \<open>t0\<close> with
  window \<open>w\<close>, \<^verbatim>\<open>get(key)\<close> returns \<open>v\<close> at every time \<open>t \<le> t0 + w\<close> and nothing at
  every time \<open>t > t0 + w\<close>; and in every state, whatever the storage does, a value that
  \<^verbatim>\<open>get\<close> returns at time \<open>t\<close> is the payload of an entry, in the memory cache or
  in storage, with \<^verbatim>\<open>t > expiresAt\<close> false.
\<close>

theorem C2_set_then_get:
  "(cacheConfigs key = Some cfg \<and> maxAge cfg = Some w \<and> \<not> failSetItem (storage s) \<and>
    \<not> failGetItem (storage s) \<and> \<not> failRemoveItem (storage s) \<longrightarrow>
      (t \<le> t0 + w \<longrightarrow> fst (get t key (snd (set_cache t0 key v None s))) = Inr (Some v)) \<and>
      (t0 + w < t \<longrightarrow> fst (get t key (snd (set_cache t0 key v None s))) = Inr None)) \<and>
   (\<forall>k d. fst (get t k s) = Inr (Some d) \<longrightarrow>
      (\<exists>e. (map_of (memoryCache s) k = Some e \<or>
            \<not> failGetItem (storage s) \<and>
            map_of (items (storage s)) (storagePrefix @ k) = Some (Json e)) \<and>
           data e = d \<and> \<not> js_gt t (expiresAt e)))"
proof -
  let ?s' = "snd (set_cache t0 key v None s)" and ?e = "entry_of t0 key v None"
  have window: "(t \<le> t0 + w \<longrightarrow> fst (get t key ?s') = Inr (Some v)) \<and>
                (t0 + w < t \<longrightarrow> fst (get t key ?s') = Inr None)"
    if pol: "cacheConfigs key = Some cfg" "maxAge cfg = Some w"
      and ok: "\<not> failSetItem (storage s)" "\<not> failGetItem (storage s)" "\<not> failRemoveItem (storage s)"
  proof -
    have e: "data ?e = v" "expiresAt ?e = Num (t0 + w)"
      using entry_of_policy [OF pol, of t0 v] by simp_all
    have r: "readable key ?s' = Some ?e"
      using ok e by (simp add: readable_after_set)
    have m: "map_of (memoryCache ?s') key = None \<or> map_of (memoryCache ?s') key = Some ?e"
      by (rule map_of_set_cache)
    have fresh: "fst (get t key ?s') = Inr (Some v)" if "t \<le> t0 + w"
    proof -
      from that e have ne: "\<not> isExpired t ?e" by (simp add: isExpired_def)
      from m show ?thesis
      proof
        assume "map_of (memoryCache ?s') key = None"
        then have "unexpired t (map_of (memoryCache ?s') key) = None" by simp
        from get_storage_hit [OF this r ne] e show ?thesis by simp
      next
        assume "map_of (memoryCache ?s') key = Some ?e"
        from get_memory_hit [OF this ne] e show ?thesis by simp
      qed
    qed
    have stale: "fst (get t key ?s') = Inr None" if "t0 + w < t"
    proof -
      from that e have ex: "isExpired t ?e" by (simp add: isExpired_def)
      from m ex have "unexpired t (map_of (memoryCache ?s') key) = None" by auto
      moreover from r ex have "unexpired t (readable key ?s') = None" by simp
      moreover have "\<not> failRemoveItem (storage ?s')" using ok by (simp add: flags_set_cache)
      ultimately show ?thesis by (rule get_miss_working)
    qed
    from fresh stale show ?thesis by blast
  qed
  have never: "\<exists>e. (map_of (memoryCache s) k = Some e \<or>
                  \<not> failGetItem (storage s) \<and>
                  map_of (items (storage s)) (storagePrefix @ k) = Some (Json e)) \<and>
                 data e = d \<and> \<not> js_gt t (expiresAt e)"
    if "fst (get t k s) = Inr (Some d)" for k d
    using get_returns_unexpired [OF that] by (auto simp: readable_Some_iff isExpired_def)
  from window never show ?thesis by blast
qed

theorem C2_set_then_get_witness:
  "cacheConfigs ''notifications'' = Some (CacheConfig 1800000 PLow TNonCritical) \<and>
   fst (get 1000 ''notifications''
          (snd (set_cache 0 ''notifications'' (7::nat) None (new_cache (working []))))) = Inr (Some 7) \<and>
   fst (get 1800001 ''notifications''
          (snd (set_cache 0 ''notifications'' (7::nat) None (new_cache (working []))))) = Inr None"
proof -
  let ?s = "new_cache (working []) :: nat cache"
  have f: "\<not> failSetItem (storage ?s)" "\<not> failGetItem (storage ?s)" "\<not> failRemoveItem (storage ?s)"
    by (simp_all add: new_cache_def working_def)
  note inst = C2_set_then_get [where key = "''notifications''"
      and cfg = "CacheConfig 1800000 PLow TNonCritical" and w = 1800000 and s = ?s
      and ?t0.0 = 0 and v = "7::nat"]
  from inst [where t = 1000] inst [where t = 1800001] f show ?thesis
    by (simp add: notifications_config)
qed

subsection \<open>C3: the warmup\<close>

text \<open>
  C3 says that the warmup inserts a stored record only if it is not expired. The
  warmup never reads the clock and never calls \<^verbatim>\<open>isExpired\<close>: a profile that
  expired at time 5 is inserted, whatever the time, and is expired at time 10.
\<close>

theorem C3_counterexample:
  "isExpired 10 stale \<and>
   map_of (memoryCache (snd (warmupCriticalCache (new_cache device)))) ''userProfile'' =
     Some (stale\<lparr>priority := Some PHigh, type := Some TCritical\<rparr>)"
  by code_simp

text \<open>
  C3, as amended: the warmup resolves and leaves the storage as it is. For each of the
  three critical keys, if \<^verbatim>\<open>getFromStorage\<close> finds a record the warmup inserts it,
  expired or not, with priority high and type critical in place of the stored ones;
  if it finds none (no record, a text that \<^verbatim>\<open>JSON.parse\<close> rejects or that parses
  to a falsy value, a failing read), the memory cache keeps what it had under that key. Other keys are not touched.
\<close>

theorem C3_warmup:
  "fst (warmupCriticalCache s) = Inr () \<and>
   storage (snd (warmupCriticalCache s)) = storage s \<and>
   (\<forall>key \<in> set criticalKeys. \<forall>e. fst (getFromStorage key s) = Inr (Some e) \<longrightarrow>
      map_of (memoryCache (snd (warmupCriticalCache s))) key =
        Some (e\<lparr>priority := Some PHigh, type := Some TCritical\<rparr>)) \<and>
   (\<forall>key \<in> set criticalKeys. fst (getFromStorage key s) = Inr None \<longrightarrow>
      map_of (memoryCache (snd (warmupCriticalCache s))) key = map_of (memoryCache s) key) \<and>
   (\<forall>key. key \<notin> set criticalKeys \<longrightarrow>
      map_of (memoryCache (snd (warmupCriticalCache s))) key = map_of (memoryCache s) key)"
  by (simp add: warmupCriticalCache_def criticalKeys_def warmupKey_eq getFromStorage_eq await_def
      update_conv' split: option.splits)

theorem C3_warmup_witness:
  "fst (getFromStorage ''userProfile'' (new_cache device)) = Inr (Some stale) \<and>
   map_of (memoryCache (snd (warmupCriticalCache (new_cache device)))) ''userProfile'' =
     Some (stale\<lparr>priority := Some PHigh, type := Some TCritical\<rparr>) \<and>
   fst (getFromStorage ''medicalHistory'' (new_cache device)) = Inr None \<and>
   map_of (memoryCache (snd (warmupCriticalCache (new_cache device)))) ''medicalHistory'' = None"
proof -
  have k: "''userProfile'' \<in> set criticalKeys" "''medicalHistory'' \<in> set criticalKeys"
    by (simp_all add: criticalKeys_def)
  have g: "fst (getFromStorage ''userProfile'' (new_cache device)) = Inr (Some stale)"
    by code_simp
  have h: "fst (getFromStorage ''medicalHistory'' (new_cache device)) = Inr None"
    by code_simp
  have m: "map_of (memoryCache (new_cache device)) ''medicalHistory'' = None"
    by (simp add: new_cache_def)
  from C3_warmup [of "new_cache device"] k g h m show ?thesis
    by simp
qed

subsection \<open>C4: the capacity after set\<close>

text \<open>
  C4 says that the memory cache holds at most 50 entries when \<^verbatim>\<open>set\<close> returns, from
  every reachable state, and at most 51 during the call. The state \<open>overfull\<close> is
  reached by 60 \<^verbatim>\<open>set\<close> calls with distinct keys, a restart of the application and
  a \<^verbatim>\<open>get\<close> of each key; it holds 60 entries, since the promotion in \<^verbatim>\<open>get\<close>
  checks no capacity. A \<^verbatim>\<open>set\<close> of a new key then holds 61 entries after its
  insertion (\<open>inserted\<close>), evicts ten of them and returns with 51.
\<close>

theorem C4_set_returns_above_capacity:
  "length (memoryCache overfull) = 60 \<and>
   length (memoryCache (inserted 0 ''notifications'' 7 None overfull)) = 61 \<and>
   fst (set_cache 0 ''notifications'' 7 None overfull) = Inr () \<and>
   length (memoryCache (snd (set_cache 0 ''notifications'' 7 None overfull))) = 51"
proof -
  let ?s1 = "inserted 0 ''notifications'' 7 None overfull"
  let ?e = "entry_of 0 ''notifications'' 7 None :: nat cache_entry"
  have o: "overfull = \<lparr>memoryCache = map (\<lambda>k. (k, sample PLow TNonCritical)) (keys_from 65 60),
                        storage = working (records (keys_from 65 60))\<rparr>"
    unfolding overfull_def by (rule gets_after_restart) simp_all
  have len: "length (memoryCache overfull) = 60"
    by (simp add: o keys_from_facts)
  have absent: "map_of (memoryCache overfull) ''notifications'' = None"
    by (simp add: o map_of_eq_None_iff image_image keys_from_facts)
  have M1: "memoryCache ?s1 = memoryCache overfull @ [(''notifications'', ?e)]"
    using absent by (simp add: inserted_def update_absent)
  have d1: "distinct (map fst (memoryCache ?s1))"
    by (simp add: M1) (simp add: o comp_def distinct_keys_from keys_from_facts image_image)
  have "typed (''notifications'', ?e)"
    by (simp add: typed_def entry_of_notifications)
  then have t1: "list_all typed (memoryCache ?s1)"
    by (simp add: M1) (simp add: o list_all_iff typed_def sample_def)
  have "length (memoryCache (evictFromMemoryCache ?s1)) = 51"
    using evict_length [OF d1] by (simp add: M1 len toRemove_10)
  then show ?thesis
    by (simp add: len M1 memory_set_cache set_cache_eq Let_def maxMemoryCacheSize_def)
qed

text \<open>
  What \<^verbatim>\<open>set\<close> does keep: from a memory cache of at most 50 entries, it returns with
  at most 50, having held at most 51.
\<close>

lemma set_cache_keeps_capacity:
  assumes "distinct (map fst (memoryCache s))" "length (memoryCache s) \<le> maxMemoryCacheSize"
  shows "length (memoryCache (inserted now key v cc s)) \<le> Suc maxMemoryCacheSize \<and>
         length (memoryCache (snd (set_cache now key v cc s))) \<le> maxMemoryCacheSize"
proof -
  have "length (memoryCache (inserted now key v cc s)) \<le> Suc (length (memoryCache s))"
    by (simp add: inserted_def length_update_le)
  with assms show ?thesis
    by (auto simp: set_cache_length toRemove_10 maxMemoryCacheSize_def)
qed

subsection \<open>C5: what an eviction removes\<close>




subsection \<open>C6: a failing storage\<close>

text \<open>
  C6 says that with a storage that fails, \<^verbatim>\<open>get\<close> after \<^verbatim>\<open>set\<close> still returns the
  value from the memory cache. When the memory cache holds 50 entries of higher score,
  the eviction that \<^verbatim>\<open>set\<close> triggers removes the entry just inserted; the storage
  holds nothing, and \<^verbatim>\<open>get\<close> one millisecond later returns nothing.
\<close>

theorem C6_counterexample:
  "cacheConfigs ''notifications'' = Some (CacheConfig 1800000 PLow TNonCritical) \<and>
   fst (set_cache 0 ''notifications'' 7 None (filled broken)) = Inr () \<and>
   fst (get 1 ''notifications'' (snd (set_cache 0 ''notifications'' 7 None (filled broken)))) = Inr None"
proof -
  let ?s' = "snd (set_cache 0 ''notifications'' 7 None (filled broken))"
  have full: "maxMemoryCacheSize \<le> length (memoryCache (filled broken))"
    by (simp add: filled_facts maxMemoryCacheSize_def)
  have gone: "map_of (memoryCache ?s') ''notifications'' = None"
    using own_entry_evicted [OF filled_facts(1) full filled_facts(3) notifications_config(2) filled_higher]
    by simp
  have "storage (filled broken) = broken"
    unfolding filled_def by (simp add: storage_set_each_failing new_cache_def broken_def)
  then have "failGetItem (storage ?s')"
    by (simp add: storage_set_cache broken_def)
  then have unread: "readable ''notifications'' ?s' = None"
    by (simp add: readable_def)
  have "get 1 ''notifications'' ?s' = (Inr None, ?s')"
    using gone unread by (simp add: get_miss)
  then show ?thesis
    by (simp add: notifications_config(1) set_cache_eq Let_def)
qed

text \<open>
  C6, as amended: for a key with a policy in the registry and no override, whatever
  the storage does (every write and read may fail), \<^verbatim>\<open>set(key, v)\<close> resolves; the
  entry is resident when \<^verbatim>\<open>set\<close> returns if the memory cache held fewer than 50
  entries before; and whenever it is resident, \<^verbatim>\<open>get(key)\<close> at a time
  \<open>t \<le> expiresAt\<close> returns \<open>v\<close> from the memory cache, resolves, and changes nothing.
\<close>

theorem C6_set_survives_storage_failure:
  assumes pol: "cacheConfigs key = Some cfg" "maxAge cfg = Some w"
  shows "fst (set_cache t0 key v None s) = Inr () \<and>
         (length (memoryCache s) < maxMemoryCacheSize \<longrightarrow>
            map_of (memoryCache (snd (set_cache t0 key v None s))) key \<noteq> None) \<and>
         (map_of (memoryCache (snd (set_cache t0 key v None s))) key \<noteq> None \<and> t \<le> t0 + w \<longrightarrow>
            get t key (snd (set_cache t0 key v None s)) =
              (Inr (Some v), snd (set_cache t0 key v None s)))"
proof -
  let ?s' = "snd (set_cache t0 key v None s)" and ?e = "entry_of t0 key v None"
  have e: "data ?e = v" "expiresAt ?e = Num (t0 + w)"
    using entry_of_policy [OF pol, of t0 v] by simp_all
  have a: "fst (set_cache t0 key v None s) = Inr ()"
    by (simp add: set_cache_eq Let_def)
  have b: "map_of (memoryCache ?s') key \<noteq> None" if "length (memoryCache s) < maxMemoryCacheSize"
    using resident_when_room [OF that] by simp
  have c: "get t key ?s' = (Inr (Some v), ?s')"
    if "map_of (memoryCache ?s') key \<noteq> None" "t \<le> t0 + w"
  proof -
    from that(1) map_of_set_cache [of t0 key v None s]
    have "map_of (memoryCache ?s') key = Some ?e" by auto
    moreover from that(2) e have "\<not> isExpired t ?e" by (simp add: isExpired_def)
    ultimately show ?thesis using e by (simp add: get_memory_hit)
  qed
  from a b c show ?thesis by blast
qed

theorem C6_set_survives_storage_failure_witness:
  "cacheConfigs ''notifications'' = Some (CacheConfig 1800000 PLow TNonCritical) \<and>
   failSetItem (storage (new_cache broken :: nat cache)) \<and>
   failGetItem (storage (new_cache broken :: nat cache)) \<and>
   fst (set_cache 0 ''notifications'' (7::nat) None (new_cache broken)) = Inr () \<and>
   get 1000 ''notifications'' (snd (set_cache 0 ''notifications'' (7::nat) None (new_cache broken))) =
     (Inr (Some 7), snd (set_cache 0 ''notifications'' (7::nat) None (new_cache broken)))"
proof -
  let ?s = "new_cache broken :: nat cache"
  have room: "length (memoryCache ?s) < maxMemoryCacheSize"
    by (simp add: new_cache_def maxMemoryCacheSize_def)
  have f: "failSetItem (storage ?s)" "failGetItem (storage ?s)"
    by (simp_all add: new_cache_def broken_def)
  from C6_set_survives_storage_failure [OF notifications_config(1) notifications_config(3),
      where s = ?s and t = 1000 and ?t0.0 = 0 and v = 7] room f
  show ?thesis
    by (simp add: notifications_config(1))
qed

subsection \<open>C7: clear\<close>

text \<open>
  C7: \<^verbatim>\<open>clear\<close> resolves exactly when listing the keys and the multiple removal
  work; when it has resolved, the memory cache is empty, no key of the storage starts
  with \<^verbatim>\<open>gynaid_cache_\<close>, and every key that does not start with it holds what it
  held: the storage keeps exactly the items outside the namespace, in their order.
\<close>

theorem C7_clear:
  "(fst (clear s) = Inr ()) = (\<not> failGetAllKeys (storage s) \<and> \<not> failMultiRemove (storage s)) \<and>
   (fst (clear s) = Inr () \<longrightarrow>
      length (memoryCache (snd (clear s))) = 0 \<and>
      (\<forall>k. startsWith k storagePrefix \<longrightarrow> k \<notin> fst ` set (items (storage (snd (clear s))))) \<and>
      (\<forall>k. \<not> startsWith k storagePrefix \<longrightarrow>
          map_of (items (storage (snd (clear s)))) k = map_of (items (storage s)) k) \<and>
      items (storage (snd (clear s))) =
        filter (\<lambda>kv. \<not> startsWith (fst kv) storagePrefix) (items (storage s)))"
proof -
  have "map_of (filter (\<lambda>kv. \<not> startsWith (fst kv) storagePrefix) xs) k = map_of xs k"
    if "\<not> startsWith k storagePrefix" for k and xs :: "(string \<times> 'a stored) list"
    using that by (induction xs) auto
  then show ?thesis
    by (auto simp: clear_eq)
qed

theorem C7_clear_witness:
  "fst (clear used) = Inr () \<and>
   length (memoryCache (snd (clear used))) = 0 \<and>
   items (storage (snd (clear used))) = [(''auth_token'', Unparsable ''abc'')]"
proof -
  have f: "\<not> failGetAllKeys (storage used) \<and> \<not> failMultiRemove (storage used)"
    by (simp add: used_def device_def working_def)
  have i: "filter (\<lambda>kv. \<not> startsWith (fst kv) storagePrefix) (items (storage used)) =
             [(''auth_token'', Unparsable ''abc'')]"
    by code_simp
  from C7_clear [of used] f i show ?thesis
    by simp
qed

subsection \<open>C8: get promotes without a capacity check\<close>

text \<open>
  C8: \<^verbatim>\<open>evictFromMemoryCache\<close> is called by \<^verbatim>\<open>set\<close> alone. When \<^verbatim>\<open>get\<close> finds
  no entry for the key in the memory cache and reads an unexpired one from the
  storage, it appends it to the memory cache and returns its payload: the memory cache
  grows by one entry whatever its size, so from 50 entries or more it ends above the
  capacity. An instance is the state reached by 51 \<^verbatim>\<open>set\<close> calls with distinct
  keys, a restart of the application and 50 \<^verbatim>\<open>get\<close> calls: the next \<^verbatim>\<open>get\<close>
  leaves 51 entries.
\<close>

theorem C8_get_promotes_without_eviction:
  assumes absent: "map_of (memoryCache s) key = None"
    and stored: "\<not> failGetItem (storage s)"
      "map_of (items (storage s)) (storagePrefix @ key) = Some (Json e)"
    and fresh: "\<not> isExpired now e"
  shows "get now key s = (Inr (Some (data e)), s\<lparr>memoryCache := memoryCache s @ [(key, e)]\<rparr>) \<and>
         length (memoryCache (snd (get now key s))) = Suc (length (memoryCache s)) \<and>
         (maxMemoryCacheSize \<le> length (memoryCache s) \<longrightarrow>
            maxMemoryCacheSize < length (memoryCache (snd (get now key s))))"
proof -
  from absent have "unexpired now (map_of (memoryCache s) key) = None" by simp
  moreover from stored have "readable key s = Some e" by (simp add: readable_Some_iff)
  ultimately have "get now key s =
      (Inr (Some (data e)), s\<lparr>memoryCache := AList.update key e (memoryCache s)\<rparr>)"
    using fresh by (rule get_storage_hit)
  with absent show ?thesis by (simp add: update_absent)
qed

theorem C8_get_promotes_without_eviction_witness:
  "length (memoryCache promoted) = 50 \<and>
   map_of (memoryCache promoted) ''s'' = None \<and>
   \<not> failGetItem (storage promoted) \<and>
   map_of (items (storage promoted)) (storagePrefix @ ''s'') = Some (Json (sample PLow TNonCritical)) \<and>
   \<not> isExpired 0 (sample PLow TNonCritical) \<and>
   length (memoryCache (snd (get 0 ''s'' promoted))) = 51 \<and>
   maxMemoryCacheSize < length (memoryCache (snd (get 0 ''s'' promoted)))"
proof -
  have p: "promoted = \<lparr>memoryCache = map (\<lambda>k. (k, sample PLow TNonCritical)) (keys_from 65 50),
                        storage = working (records (keys_from 65 51))\<rparr>"
    unfolding promoted_def by (rule gets_after_restart) simp_all
  have "[char_of (65 + 50 :: nat)] = ''s''"
    by code_simp
  moreover have "keys_from 65 51 = keys_from 65 (Suc 50)"
    by simp
  ultimately have s: "keys_from 65 51 = keys_from 65 50 @ [''s'']"
    by (simp only: keys_from_Suc)
  have "distinct (keys_from 65 51)"
    by (simp add: distinct_keys_from)
  then have new: "''s'' \<notin> set (keys_from 65 50)"
    by (simp add: s)
  have len: "length (memoryCache promoted) = 50"
    by (simp add: p keys_from_facts)
  have a: "map_of (memoryCache promoted) ''s'' = None"
    using new by (simp add: p map_of_eq_None_iff image_image)
  have r: "\<not> failGetItem (storage promoted)"
    by (simp add: p working_def)
  have i: "map_of (items (storage promoted)) (storagePrefix @ ''s'') = Some (Json (sample PLow TNonCritical))"
    by (simp add: p working_def map_of_records s)
  have e: "\<not> isExpired 0 (sample PLow TNonCritical)"
    by (simp add: isExpired_def sample_def)
  from C8_get_promotes_without_eviction [OF a r i e] len a r i e show ?thesis
    by (simp add: maxMemoryCacheSize_def)
qed

subsection \<open>C9: set without a policy\<close>

text \<open>
  C9 says that after a \<^verbatim>\<open>set\<close> of a key without policy and without override,
  \<^verbatim>\<open>get\<close> returns the value at every later time. In the state \<open>crowded\<close> the
  memory cache holds 51 entries, \<^verbatim>\<open>labResults\<close> first and 50 promoted entries of
  score 0 after it. A \<^verbatim>\<open>set\<close> of \<^verbatim>\<open>labResults\<close> at time 1 resolves, but its
  eviction removes the first ten entries, the new one among them (every comparison
  gives \<open>NaN\<close> or \<open>0\<close>, so the sort leaves the array as it is). The stored copy has
  \<^verbatim>\<open>expiresAt\<close> \<^verbatim>\<open>null\<close>, since \<^verbatim>\<open>JSON.stringify\<close> writes \<open>NaN\<close> so, and
  \<^verbatim>\<open>2 > null\<close> is true: \<^verbatim>\<open>get\<close> at time 2 finds it expired, removes it and returns
  nothing.
\<close>

theorem C9_counterexample:
  "cacheConfigs ''labResults'' = None \<and>
   fst (set_cache 1 ''labResults'' 8 None crowded) = Inr () \<and>
   map_of (memoryCache (snd (set_cache 1 ''labResults'' 8 None crowded))) ''labResults'' = None \<and>
   map_of (items (storage (snd (set_cache 1 ''labResults'' 8 None crowded))))
       (storagePrefix @ ''labResults'') =
     Some (Json \<lparr>data = 8, timestamp = 1, expiresAt = Null, priority = None, type = None\<rparr>) \<and>
   fst (get 2 ''labResults'' (snd (set_cache 1 ''labResults'' 8 None crowded))) = Inr None"
proof -
  let ?s1 = "inserted 1 ''labResults'' 8 None crowded"
  let ?s' = "snd (set_cache 1 ''labResults'' 8 None crowded)"
  let ?lows = "map (\<lambda>k. (k, sample PLow TNonCritical)) (keys_from 65 50)"
  let ?e = "\<lparr>data = 8, timestamp = 1, expiresAt = Null, priority = None, type = None\<rparr> :: nat cache_entry"
  have M1: "memoryCache ?s1 = (''labResults'', unpolicied 8 1) # ?lows"
    by (simp add: inserted_def crowded_eq entry_of_unpolicied labResults_no_policy)
  have len: "maxMemoryCacheSize < length (memoryCache ?s1)"
    by (simp add: M1 keys_from_facts maxMemoryCacheSize_def)
  have "successively (\<lambda>x y. not_after (compare x y)) (memoryCache ?s1)"
    unfolding M1
    by (rule successively_all_pairs) (auto simp: compare_unpolicied compare_sample_lo)
  then have "js_sort compare (memoryCache ?s1) = memoryCache ?s1"
    by (rule js_sort_run)
  then have "map_of (memoryCache (evictFromMemoryCache ?s1)) ''labResults'' = None"
    using M1 by (rule evicted_head)
  then have gone: "map_of (memoryCache ?s') ''labResults'' = None"
    using len by (simp add: memory_set_cache)
  have st: "map_of (items (storage ?s')) (storagePrefix @ ''labResults'') = Some (Json ?e)"
    by (simp add: storage_set_cache crowded_eq working_def update_conv' entry_of_unpolicied
        labResults_no_policy JSON_stringify_def unpolicied_def)
  have flags: "\<not> failGetItem (storage ?s')" "\<not> failRemoveItem (storage ?s')"
    by (simp_all add: flags_set_cache crowded_eq working_def)
  from st flags(1) have "readable ''labResults'' ?s' = Some ?e"
    by (simp add: readable_Some_iff)
  then have "unexpired 2 (readable ''labResults'' ?s') = None"
    by (simp add: isExpired_def)
  moreover from gone have "unexpired 2 (map_of (memoryCache ?s') ''labResults'') = None"
    by simp
  ultimately have "fst (get 2 ''labResults'' ?s') = Inr None"
    using flags(2) by (simp add: get_miss_working)
  with gone st show ?thesis
    by (simp add: labResults_no_policy set_cache_eq Let_def)
qed

text \<open>
  C9, as amended: for a key with no policy in the registry and no override,
  \<^verbatim>\<open>set(key, v)\<close> resolves; the entry it puts into the memory cache has
  \<^verbatim>\<open>expiresAt\<close> \<open>NaN\<close> and priority and type undefined; \<^verbatim>\<open>isExpired\<close> is false
  for that entry at every time; and as long as the entry is resident in the memory
  cache, \<^verbatim>\<open>get(key)\<close> returns \<open>v\<close> at every time and changes nothing. The entry is
  resident when \<^verbatim>\<open>set\<close> returns if the memory cache held fewer than 50 entries
  before, so that no eviction ran.
\<close>

theorem C9_missing_policy_never_expires:
  assumes nopol: "cacheConfigs key = None"
  shows "fst (set_cache t0 key v None s) = Inr () \<and>
         map_of (memoryCache (inserted t0 key v None s)) key =
           Some \<lparr>data = v, timestamp = t0, expiresAt = NaN, priority = None, type = None\<rparr> \<and>
         (\<forall>t. \<not> isExpired t \<lparr>data = v, timestamp = t0, expiresAt = NaN, priority = None, type = None\<rparr>) \<and>
         (length (memoryCache s) < maxMemoryCacheSize \<longrightarrow>
            map_of (memoryCache (snd (set_cache t0 key v None s))) key =
              Some \<lparr>data = v, timestamp = t0, expiresAt = NaN, priority = None, type = None\<rparr>) \<and>
         (map_of (memoryCache (snd (set_cache t0 key v None s))) key \<noteq> None \<longrightarrow>
            (\<forall>t. get t key (snd (set_cache t0 key v None s)) =
                   (Inr (Some v), snd (set_cache t0 key v None s))))"
proof -
  let ?s' = "snd (set_cache t0 key v None s)"
  let ?e = "\<lparr>data = v, timestamp = t0, expiresAt = NaN, priority = None, type = None\<rparr>"
  have e: "entry_of t0 key v None = ?e"
    using nopol by (simp add: entry_of_def spread_def no_config_def no_custom_def)
  have a: "fst (set_cache t0 key v None s) = Inr ()"
    by (simp add: set_cache_eq Let_def)
  have b: "map_of (memoryCache (inserted t0 key v None s)) key = Some ?e"
    by (simp add: inserted_def e update_conv')
  have c: "\<not> isExpired t ?e" for t
    by (simp add: isExpired_def)
  have d: "map_of (memoryCache ?s') key = Some ?e" if "length (memoryCache s) < maxMemoryCacheSize"
    using resident_when_room [OF that, of t0 key v None] e by simp
  have g: "get t key ?s' = (Inr (Some v), ?s')" if "map_of (memoryCache ?s') key \<noteq> None" for t
  proof -
    from that map_of_set_cache [of t0 key v None s] e
    have "map_of (memoryCache ?s') key = Some ?e" by auto
    from get_memory_hit [OF this c] show ?thesis by simp
  qed
  from a b c d g show ?thesis by blast
qed

theorem C9_missing_policy_never_expires_witness:
  "cacheConfigs ''labResults'' = None \<and>
   fst (set_cache 0 ''labResults'' (7::nat) None (new_cache (working []))) = Inr () \<and>
   map_of (memoryCache (snd (set_cache 0 ''labResults'' (7::nat) None (new_cache (working []))))) ''labResults'' =
     Some \<lparr>data = 7, timestamp = 0, expiresAt = NaN, priority = None, type = None\<rparr> \<and>
   get 999999999999 ''labResults'' (snd (set_cache 0 ''labResults'' (7::nat) None (new_cache (working [])))) =
     (Inr (Some 7), snd (set_cache 0 ''labResults'' (7::nat) None (new_cache (working []))))"
proof -
  have p: "cacheConfigs ''labResults'' = None"
    by (simp add: cacheConfigs_def)
  have room: "length (memoryCache (new_cache (working []) :: nat cache)) < maxMemoryCacheSize"
    by (simp add: new_cache_def maxMemoryCacheSize_def)
  from C9_missing_policy_never_expires [OF p, where ?t0.0 = 0 and v = "7::nat"
      and s = "new_cache (working [])"]
    p room
  show ?thesis
    by simp
qed

subsection \<open>C10: set can evict the entry it has just inserted\<close>

text \<open>
  C10: the eviction that \<^verbatim>\<open>set\<close> triggers sorts every resident entry, the new one
  included. When the memory cache holds 50 entries or more under other keys, each of a
  score above the new entry's, and the write to storage works, \<^verbatim>\<open>set\<close> resolves with
  the key absent from the memory cache (ten entries were removed, the new one among
  them) and present in the storage. An instance is the state after 50 \<^verbatim>\<open>set\<close> calls
  of high priority and critical type, and a \<^verbatim>\<open>set\<close> of \<^verbatim>\<open>notifications\<close>.
\<close>

theorem C10_set_evicts_own_entry:
  assumes d: "distinct (map fst (memoryCache s))"
    and full: "maxMemoryCacheSize \<le> length (memoryCache s)"
    and absent: "map_of (memoryCache s) key = None"
    and cfg: "spread (or_empty (cacheConfigs key)) (or_absent cc) = CacheConfig w p c"
    and higher: "\<forall>x \<in> set (memoryCache s). \<exists>p' c'. priority (snd x) = Some p' \<and>
                   type (snd x) = Some c' \<and>
                   priorityOrder p + typeOrder c < priorityOrder p' + typeOrder c'"
    and writes: "\<not> failSetItem (storage s)"
  shows "fst (set_cache now key v cc s) = Inr () \<and>
         map_of (memoryCache (snd (set_cache now key v cc s))) key = None \<and>
         length (memoryCache (snd (set_cache now key v cc s))) + 9 = length (memoryCache s) \<and>
         map_of (items (storage (snd (set_cache now key v cc s)))) (storagePrefix @ key) =
           Some (Json \<lparr>data = v, timestamp = now, expiresAt = Num (now + w),
                       priority = Some p, type = Some c\<rparr>)"
proof -
  let ?e = "\<lparr>data = v, timestamp = now, expiresAt = Num (now + w), priority = Some p, type = Some c\<rparr>"
  have e: "entry_of now key v cc = ?e"
    by (simp add: entry_of_def cfg CacheConfig_def)
  have a: "fst (set_cache now key v cc s) = Inr ()"
    by (simp add: set_cache_eq Let_def)
  have st: "map_of (items (storage (snd (set_cache now key v cc s)))) (storagePrefix @ key) = Some (Json ?e)"
    using writes by (simp add: storage_set_cache e update_conv' JSON_stringify_def)
  from a st own_entry_evicted [OF d full absent cfg higher, of now v] show ?thesis
    by simp
qed

theorem C10_set_evicts_own_entry_witness:
  "distinct (map fst (memoryCache (filled (working [])))) \<and>
   length (memoryCache (filled (working []))) = 50 \<and>
   map_of (memoryCache (filled (working []))) ''notifications'' = None \<and>
   \<not> failSetItem (storage (filled (working []))) \<and>
   fst (set_cache 0 ''notifications'' 7 None (filled (working []))) = Inr () \<and>
   map_of (memoryCache (snd (set_cache 0 ''notifications'' 7 None (filled (working []))))) ''notifications'' = None \<and>
   length (memoryCache (snd (set_cache 0 ''notifications'' 7 None (filled (working []))))) = 41 \<and>
   map_of (items (storage (snd (set_cache 0 ''notifications'' 7 None (filled (working []))))))
       (storagePrefix @ ''notifications'') =
     Some (Json \<lparr>data = 7, timestamp = 0, expiresAt = Num 1800000,
                 priority = Some PLow, type = Some TNonCritical\<rparr>)"
proof -
  let ?s = "filled (working [])"
  have full: "maxMemoryCacheSize \<le> length (memoryCache ?s)"
    by (simp add: filled_facts maxMemoryCacheSize_def)
  have w: "\<not> failSetItem (storage ?s)"
    unfolding filled_def by (simp add: flags_set_each new_cache_def working_def)
  from C10_set_evicts_own_entry [OF filled_facts(1) full filled_facts(3) notifications_config(2)
      filled_higher w, where now = 0 and v = 7]
    filled_facts [of "working []"] w
  show ?thesis
    by simp
qed

end
